theory Spec2Isabelle
  imports Main "HOL-Library.Finite_Map"
begin

section \<open>The access manager of access\_manager.py\<close>

text \<open>
  The class \<open>AccessManager\<close> holds two sets of vertices (users, groups), two dictionaries of
  graph edges, two dictionaries of component mappings, the dictionary of entity types and two
  dictionaries of entity mappings. A Python \<open>dict\<close> is a finite map (\<open>fmap\<close>): \<open>k in d\<close> is
  \<open>k \<in> fmdom' d\<close>, \<open>d[k] = v\<close> is \<open>fmupd k v d\<close>, \<open>d.pop(k)\<close> is \<open>fmdrop k d\<close>. A Python \<open>set\<close>
  that the code only tests, adds to and removes from is a HOL set. The two edge dictionaries
  hold sets the traversal iterates over; the order in which Python iterates a set is not
  fixed by the language, so each such row is a list whose order stands for the iteration
  order: \<open>add\<close> appends, \<open>remove\<close> deletes every occurrence, and every theorem below holds for
  every order. Strings are lists of 8-bit characters.
\<close>

subsection \<open>Errors\<close>

text \<open>
  Every \<open>raise\<close> of the source builds a \<open>ValueError\<close> (or, for the circular reference, an
  \<open>Exception\<close>) from a fixed message template. The error value records the template: what the
  message is about, and the formal parameter name where the template prints one.
  \<open>AttributeError\<close> is what Python raises for \<open>self._user_to_component_map.remove(user)\<close>: a
  \<open>dict\<close> has no attribute \<open>remove\<close>.
\<close>

datatype subject =
    User | Group | EntityType | Entity
  | UserToGroupMapping | GroupToGroupMapping
  | UserToComponentMapping | GroupToComponentMapping
  | UserToEntityMapping | GroupToEntityMapping

datatype error =
    DoesNotExist subject string
  | AlreadyExists subject
  | MustContainValidCharacter subject
  | SameGroup
  | CircularReference
  | AttributeError

subsection \<open>State\<close>

record ('u, 'g, 'c, 'a) access_manager =
  users :: "'u set"
  groups :: "'g set"
  user_to_group_graph_edges :: "('u, 'g list) fmap"
  group_to_group_graph_edges :: "('g, 'g list) fmap"
  user_to_component_map :: "('u, ('c \<times> 'a) set) fmap"
  group_to_component_map :: "('g, ('c \<times> 'a) set) fmap"
  entities :: "(string, string set) fmap"
  user_to_entity_map :: "('u, (string, string set) fmap) fmap"
  group_to_entity_map :: "('g, (string, string set) fmap) fmap"

text \<open>\<open>__init__\<close>: every store starts empty.\<close>

definition init :: "('u, 'g, 'c, 'a) access_manager" where
  "init = \<lparr> users = {}, groups = {},
     user_to_group_graph_edges = fmempty, group_to_group_graph_edges = fmempty,
     user_to_component_map = fmempty, group_to_component_map = fmempty,
     entities = fmempty, user_to_entity_map = fmempty, group_to_entity_map = fmempty \<rparr>"

text \<open>
  A method that mutates returns the error it raised, if any, together with the state it
  leaves behind: a Python exception does not undo the assignments made before it.
\<close>

type_synonym ('u, 'g, 'c, 'a) outcome = "error option \<times> ('u, 'g, 'c, 'a) access_manager"

subsection \<open>Users and groups\<close>

definition add_user :: "'u \<Rightarrow> ('u, 'g, 'c, 'a) access_manager \<Rightarrow> ('u, 'g, 'c, 'a) outcome" where
  "add_user user s =
     (if user \<in> users s then (Some (AlreadyExists User), s)
      else (None, s\<lparr>users := insert user (users s)\<rparr>))"

definition contains_user :: "('u, 'g, 'c, 'a) access_manager \<Rightarrow> 'u \<Rightarrow> bool" where
  "contains_user s user = (user \<in> users s)"

definition remove_user :: "'u \<Rightarrow> ('u, 'g, 'c, 'a) access_manager \<Rightarrow> ('u, 'g, 'c, 'a) outcome" where
  "remove_user user s =
     (if user \<notin> users s then (Some (DoesNotExist User ''user''), s)
      else
        let s1 = (if user \<in> fmdom' (user_to_component_map s)
                  then s\<lparr>user_to_component_map := fmdrop user (user_to_component_map s)\<rparr>
                  else s);
            s2 = (if user \<in> fmdom' (user_to_entity_map s1)
                  then s1\<lparr>user_to_entity_map := fmdrop user (user_to_entity_map s1)\<rparr>
                  else s1)
        in (None, s2\<lparr>users := users s2 - {user}\<rparr>))"

definition add_group :: "'g \<Rightarrow> ('u, 'g, 'c, 'a) access_manager \<Rightarrow> ('u, 'g, 'c, 'a) outcome" where
  "add_group grp s =
     (if grp \<in> groups s then (Some (AlreadyExists Group), s)
      else (None, s\<lparr>groups := insert grp (groups s)\<rparr>))"

definition contains_group :: "('u, 'g, 'c, 'a) access_manager \<Rightarrow> 'g \<Rightarrow> bool" where
  "contains_group s grp = (grp \<in> groups s)"

definition remove_group :: "'g \<Rightarrow> ('u, 'g, 'c, 'a) access_manager \<Rightarrow> ('u, 'g, 'c, 'a) outcome" where
  "remove_group grp s =
     (if grp \<notin> groups s then (Some (DoesNotExist Group ''group''), s)
      else
        let s1 = (if grp \<in> fmdom' (group_to_component_map s)
                  then s\<lparr>group_to_component_map := fmdrop grp (group_to_component_map s)\<rparr>
                  else s);
            s2 = (if grp \<in> fmdom' (group_to_entity_map s1)
                  then s1\<lparr>group_to_entity_map := fmdrop grp (group_to_entity_map s1)\<rparr>
                  else s1)
        in (None, s2\<lparr>groups := groups s2 - {grp}\<rparr>))"

subsection \<open>User to group edges\<close>

definition add_user_to_group_mapping ::
  "'u \<Rightarrow> 'g \<Rightarrow> ('u, 'g, 'c, 'a) access_manager \<Rightarrow> ('u, 'g, 'c, 'a) outcome" where
  "add_user_to_group_mapping user grp s =
     (if user \<notin> users s then (Some (DoesNotExist User ''user''), s)
      else if grp \<notin> groups s then (Some (DoesNotExist Group ''group''), s)
      else
        (case fmlookup (user_to_group_graph_edges s) user of
           Some row \<Rightarrow>
             if grp \<in> set row then (Some (AlreadyExists UserToGroupMapping), s)
             else (None, s\<lparr>user_to_group_graph_edges :=
                     fmupd user (row @ [grp]) (user_to_group_graph_edges s)\<rparr>)
         | None \<Rightarrow>
             (None, s\<lparr>user_to_group_graph_edges :=
                     fmupd user ([] @ [grp]) (user_to_group_graph_edges s)\<rparr>)))"

definition get_user_to_group_mappings ::
  "('u, 'g, 'c, 'a) access_manager \<Rightarrow> 'u \<Rightarrow> error + 'g list" where
  "get_user_to_group_mappings s user =
     (if user \<notin> users s then Inl (DoesNotExist User ''user'')
      else (case fmlookup (user_to_group_graph_edges s) user of
              Some row \<Rightarrow> Inr row
            | None \<Rightarrow> Inr []))"

definition remove_user_to_group_mapping ::
  "'u \<Rightarrow> 'g \<Rightarrow> ('u, 'g, 'c, 'a) access_manager \<Rightarrow> ('u, 'g, 'c, 'a) outcome" where
  "remove_user_to_group_mapping user grp s =
     (if user \<notin> users s then (Some (DoesNotExist User ''user''), s)
      else if grp \<notin> groups s then (Some (DoesNotExist Group ''group''), s)
      else
        (case fmlookup (user_to_group_graph_edges s) user of
           None \<Rightarrow> (Some (DoesNotExist UserToGroupMapping []), s)
         | Some row \<Rightarrow>
             if grp \<notin> set row then (Some (DoesNotExist UserToGroupMapping []), s)
             else (None, s\<lparr>user_to_group_graph_edges :=
                     fmupd user (removeAll grp row) (user_to_group_graph_edges s)\<rparr>)))"

subsection \<open>The traversal engine\<close>

text \<open>
  A traversal action is an object with an \<open>invoke(group)\<close> method that returns whether to
  keep traversing, may update the object's own fields, and may raise. It is a function from
  the group and the fields before to an error, or the returned flag and the fields after.
\<close>

type_synonym ('g, 'v) action = "'g \<Rightarrow> 'v \<Rightarrow> error + bool \<times> 'v"

text \<open>
  The \<open>for\<close> loop of \<open>_traverse_user_and_group_graph_from_group_recurse\<close> over the outbound
  edges of a group, with the recursive call as a parameter. \<open>keep_traversing\<close> is assigned
  only when the neighbour is not in \<open>visited_groups\<close>; the \<open>break\<close> test follows in either
  case. \<open>None\<close> is a recursion that did not return.
\<close>

fun for_next_edge_group ::
  "('g \<Rightarrow> 'g set \<Rightarrow> 'v \<Rightarrow> (error + bool \<times> 'v) option) \<Rightarrow> 'g list \<Rightarrow> 'g set \<Rightarrow> bool \<Rightarrow> 'v
     \<Rightarrow> (error + bool \<times> 'v) option" where
  "for_next_edge_group recurse [] visited_groups keep_traversing v =
     Some (Inr (keep_traversing, v))"
| "for_next_edge_group recurse (next_edge_group # rest) visited_groups keep_traversing v =
     (if next_edge_group \<notin> visited_groups then
        (case recurse next_edge_group visited_groups v of
           None \<Rightarrow> None
         | Some (Inl e) \<Rightarrow> Some (Inl e)
         | Some (Inr (keep_traversing', v')) \<Rightarrow>
             if keep_traversing' = False then Some (Inr (keep_traversing', v'))
             else for_next_edge_group recurse rest visited_groups keep_traversing' v')
      else if keep_traversing = False then Some (Inr (keep_traversing, v))
      else for_next_edge_group recurse rest visited_groups keep_traversing v)"

text \<open>
  \<open>_traverse_user_and_group_graph_from_group_recurse\<close>. The source recurses without a bound
  (on a cyclic graph it does not return), so the model carries fuel: the number of nested
  calls still allowed. \<open>None\<close> is fuel exhausted. \<open>visited_groups\<close> is passed on as it was
  received: no statement of the source adds to it. The limit the Python interpreter puts
  on the depth of recursion is not modelled.
\<close>

fun traverse_user_and_group_graph_from_group_recurse ::
  "nat \<Rightarrow> ('u, 'g, 'c, 'a) access_manager \<Rightarrow> 'g \<Rightarrow> 'g set \<Rightarrow> ('g, 'v) action \<Rightarrow> 'v
     \<Rightarrow> (error + bool \<times> 'v) option" where
  "traverse_user_and_group_graph_from_group_recurse 0 s next_group visited_groups group_action v =
     None"
| "traverse_user_and_group_graph_from_group_recurse (Suc fuel) s next_group visited_groups
       group_action v =
     (case group_action next_group v of
        Inl e \<Rightarrow> Some (Inl e)
      | Inr (keep_traversing, v') \<Rightarrow>
          (case fmlookup (group_to_group_graph_edges s) next_group of
             None \<Rightarrow> Some (Inr (keep_traversing, v'))
           | Some row \<Rightarrow>
               for_next_edge_group
                 (\<lambda>g vis w. traverse_user_and_group_graph_from_group_recurse fuel s g vis
                    group_action w)
                 row visited_groups keep_traversing v'))"

text \<open>
  The \<open>for\<close> loop of \<open>_traverse_user_and_group_graph_from_user\<close>: the flag a recursion
  returns is dropped and the loop has no \<open>break\<close>.
\<close>

fun for_next_user_edge_group ::
  "('g \<Rightarrow> 'g set \<Rightarrow> 'v \<Rightarrow> (error + bool \<times> 'v) option) \<Rightarrow> 'g list \<Rightarrow> 'g set \<Rightarrow> 'v
     \<Rightarrow> (error + 'v) option" where
  "for_next_user_edge_group recurse [] visited_groups v = Some (Inr v)"
| "for_next_user_edge_group recurse (next_edge_group # rest) visited_groups v =
     (case recurse next_edge_group visited_groups v of
        None \<Rightarrow> None
      | Some (Inl e) \<Rightarrow> Some (Inl e)
      | Some (Inr (keep_traversing, v')) \<Rightarrow>
          for_next_user_edge_group recurse rest visited_groups v')"

definition traverse_user_and_group_graph_from_user ::
  "nat \<Rightarrow> ('u, 'g, 'c, 'a) access_manager \<Rightarrow> 'u \<Rightarrow> ('g, 'v) action \<Rightarrow> 'v \<Rightarrow> (error + 'v) option"
  where
  "traverse_user_and_group_graph_from_user fuel s start_user group_action v =
     (if start_user \<notin> users s then Some (Inl (DoesNotExist User ''start_user''))
      else
        (case fmlookup (user_to_group_graph_edges s) start_user of
           None \<Rightarrow> Some (Inr v)
         | Some row \<Rightarrow>
             for_next_user_edge_group
               (\<lambda>g vis w. traverse_user_and_group_graph_from_group_recurse fuel s g vis
                  group_action w)
               row {} v))"

subsection \<open>The four traversal actions\<close>

text \<open>\<open>_CheckForAccessTraverserAction.invoke\<close>; the field is \<open>_has_access\<close>.\<close>

definition CheckForAccessTraverserAction_invoke ::
  "'c \<Rightarrow> 'a \<Rightarrow> ('g, ('c \<times> 'a) set) fmap \<Rightarrow> ('g, bool) action" where
  "CheckForAccessTraverserAction_invoke application_component access_level gcm grp has_access =
     (case fmlookup gcm grp of
        Some row \<Rightarrow>
          if (application_component, access_level) \<in> row then Inr (False, True)
          else Inr (True, has_access)
      | None \<Rightarrow> Inr (True, has_access))"

text \<open>\<open>_CheckForEntityMappingTraverserAction.invoke\<close>; the field is \<open>_has_access\<close>.\<close>

definition CheckForEntityMappingTraverserAction_invoke ::
  "string \<Rightarrow> string \<Rightarrow> ('g, (string, string set) fmap) fmap \<Rightarrow> ('g, bool) action" where
  "CheckForEntityMappingTraverserAction_invoke entity_type entity gem grp has_access =
     (case fmlookup gem grp of
        Some row \<Rightarrow>
          (case fmlookup row entity_type of
             Some es \<Rightarrow> if entity \<in> es then Inr (False, True) else Inr (True, has_access)
           | None \<Rightarrow> Inr (True, has_access))
      | None \<Rightarrow> Inr (True, has_access))"

text \<open>\<open>_AddMappedEntitiesToSetTraverserAction.invoke\<close>; the field is \<open>_mapped_entities\<close>.\<close>

definition AddMappedEntitiesToSetTraverserAction_invoke ::
  "string \<Rightarrow> ('g, (string, string set) fmap) fmap \<Rightarrow> ('g, string set) action" where
  "AddMappedEntitiesToSetTraverserAction_invoke entity_type gem grp mapped_entities =
     (case fmlookup gem grp of
        Some row \<Rightarrow>
          (case fmlookup row entity_type of
             Some es \<Rightarrow> Inr (True, mapped_entities \<union> es)
           | None \<Rightarrow> Inr (True, mapped_entities))
      | None \<Rightarrow> Inr (True, mapped_entities))"

text \<open>\<open>_CheckForCircularReferenceTraverserAction.invoke\<close>; it has no field that changes.\<close>

definition CheckForCircularReferenceTraverserAction_invoke :: "'g \<Rightarrow> ('g, unit) action" where
  "CheckForCircularReferenceTraverserAction_invoke check_group grp v =
     (if grp = check_group then Inl CircularReference else Inr (True, v))"

subsection \<open>Group to group edges\<close>

text \<open>
  \<open>add_group_to_group_mapping\<close> runs the circular reference check from \<open>to_group\<close> with an
  empty visited set before it touches the edge dictionary; an exception raised by the check
  leaves the method at once.
\<close>

definition add_group_to_group_mapping ::
  "nat \<Rightarrow> 'g \<Rightarrow> 'g \<Rightarrow> ('u, 'g, 'c, 'a) access_manager \<Rightarrow> ('u, 'g, 'c, 'a) outcome option" where
  "add_group_to_group_mapping fuel from_group to_group s =
     (if from_group \<notin> groups s then Some (Some (DoesNotExist Group ''from_group''), s)
      else if to_group \<notin> groups s then Some (Some (DoesNotExist Group ''to_group''), s)
      else if from_group = to_group then Some (Some SameGroup, s)
      else if (case fmlookup (group_to_group_graph_edges s) from_group of
                 Some row \<Rightarrow> to_group \<in> set row | None \<Rightarrow> False)
        then Some (Some (AlreadyExists GroupToGroupMapping), s)
      else
        (case traverse_user_and_group_graph_from_group_recurse fuel s to_group {}
                (CheckForCircularReferenceTraverserAction_invoke from_group) () of
           None \<Rightarrow> None
         | Some (Inl e) \<Rightarrow> Some (Some e, s)
         | Some (Inr kv) \<Rightarrow>
             (case fmlookup (group_to_group_graph_edges s) from_group of
                Some row \<Rightarrow>
                  Some (None, s\<lparr>group_to_group_graph_edges :=
                          fmupd from_group (row @ [to_group]) (group_to_group_graph_edges s)\<rparr>)
              | None \<Rightarrow>
                  Some (None, s\<lparr>group_to_group_graph_edges :=
                          fmupd from_group ([] @ [to_group]) (group_to_group_graph_edges s)\<rparr>))))"

definition get_group_to_group_mappings ::
  "('u, 'g, 'c, 'a) access_manager \<Rightarrow> 'g \<Rightarrow> error + 'g list" where
  "get_group_to_group_mappings s grp =
     (if grp \<notin> groups s then Inl (DoesNotExist Group ''group'')
      else (case fmlookup (group_to_group_graph_edges s) grp of
              Some row \<Rightarrow> Inr row
            | None \<Rightarrow> Inr []))"

definition remove_group_to_group_mapping ::
  "'g \<Rightarrow> 'g \<Rightarrow> ('u, 'g, 'c, 'a) access_manager \<Rightarrow> ('u, 'g, 'c, 'a) outcome" where
  "remove_group_to_group_mapping from_group to_group s =
     (if from_group \<notin> groups s then (Some (DoesNotExist Group ''from_group''), s)
      else if to_group \<notin> groups s then (Some (DoesNotExist Group ''to_group''), s)
      else
        (case fmlookup (group_to_group_graph_edges s) from_group of
           None \<Rightarrow> (Some (DoesNotExist GroupToGroupMapping []), s)
         | Some row \<Rightarrow>
             if to_group \<notin> set row then (Some (DoesNotExist GroupToGroupMapping []), s)
             else (None, s\<lparr>group_to_group_graph_edges :=
                     fmupd from_group (removeAll to_group row) (group_to_group_graph_edges s)\<rparr>)))"

subsection \<open>Component and access level mappings\<close>

definition add_user_to_application_component_and_access_level_mapping ::
  "'u \<Rightarrow> 'c \<Rightarrow> 'a \<Rightarrow> ('u, 'g, 'c, 'a) access_manager \<Rightarrow> ('u, 'g, 'c, 'a) outcome" where
  "add_user_to_application_component_and_access_level_mapping user application_component
       access_level s =
     (if user \<notin> users s then (Some (DoesNotExist User ''user''), s)
      else
        let component_and_access = (application_component, access_level) in
        (case fmlookup (user_to_component_map s) user of
           Some row \<Rightarrow>
             if component_and_access \<in> row then (Some (AlreadyExists UserToComponentMapping), s)
             else (None, s\<lparr>user_to_component_map :=
                     fmupd user (insert component_and_access row) (user_to_component_map s)\<rparr>)
         | None \<Rightarrow>
             (None, s\<lparr>user_to_component_map :=
                     fmupd user (insert component_and_access {}) (user_to_component_map s)\<rparr>)))"

definition get_user_to_application_component_and_access_level_mappings ::
  "('u, 'g, 'c, 'a) access_manager \<Rightarrow> 'u \<Rightarrow> error + ('c \<times> 'a) set" where
  "get_user_to_application_component_and_access_level_mappings s user =
     (if user \<notin> users s then Inl (DoesNotExist User ''user'')
      else (case fmlookup (user_to_component_map s) user of
              Some row \<Rightarrow> Inr row
            | None \<Rightarrow> Inr {}))"

text \<open>
  The removal takes the pair out of the user's row first. When that empties the row the
  source goes on to \<open>self._user_to_component_map.remove(user)\<close>, which raises
  \<open>AttributeError\<close> with the pair already gone.
\<close>

definition remove_user_to_application_component_and_access_level_mapping ::
  "'u \<Rightarrow> 'c \<Rightarrow> 'a \<Rightarrow> ('u, 'g, 'c, 'a) access_manager \<Rightarrow> ('u, 'g, 'c, 'a) outcome" where
  "remove_user_to_application_component_and_access_level_mapping user application_component
       access_level s =
     (if user \<notin> users s then (Some (DoesNotExist User ''user''), s)
      else
        let component_and_access = (application_component, access_level) in
        (case fmlookup (user_to_component_map s) user of
           Some row \<Rightarrow>
             if component_and_access \<in> row then
               let s1 = s\<lparr>user_to_component_map :=
                          fmupd user (row - {component_and_access}) (user_to_component_map s)\<rparr>
               in if row - {component_and_access} = {} then (Some AttributeError, s1)
                  else (None, s1)
             else (Some (DoesNotExist UserToComponentMapping []), s)
         | None \<Rightarrow> (Some (DoesNotExist UserToComponentMapping []), s)))"

definition add_group_to_application_component_and_access_level_mapping ::
  "'g \<Rightarrow> 'c \<Rightarrow> 'a \<Rightarrow> ('u, 'g, 'c, 'a) access_manager \<Rightarrow> ('u, 'g, 'c, 'a) outcome" where
  "add_group_to_application_component_and_access_level_mapping grp application_component
       access_level s =
     (if grp \<notin> groups s then (Some (DoesNotExist Group ''group''), s)
      else
        let component_and_access = (application_component, access_level) in
        (case fmlookup (group_to_component_map s) grp of
           Some row \<Rightarrow>
             if component_and_access \<in> row then (Some (AlreadyExists GroupToComponentMapping), s)
             else (None, s\<lparr>group_to_component_map :=
                     fmupd grp (insert component_and_access row) (group_to_component_map s)\<rparr>)
         | None \<Rightarrow>
             (None, s\<lparr>group_to_component_map :=
                     fmupd grp (insert component_and_access {}) (group_to_component_map s)\<rparr>)))"

definition get_group_to_application_component_and_access_level_mappings ::
  "('u, 'g, 'c, 'a) access_manager \<Rightarrow> 'g \<Rightarrow> error + ('c \<times> 'a) set" where
  "get_group_to_application_component_and_access_level_mappings s grp =
     (if grp \<notin> groups s then Inl (DoesNotExist Group ''group'')
      else (case fmlookup (group_to_component_map s) grp of
              Some row \<Rightarrow> Inr row
            | None \<Rightarrow> Inr {}))"

definition remove_group_to_application_component_and_access_level_mapping ::
  "'g \<Rightarrow> 'c \<Rightarrow> 'a \<Rightarrow> ('u, 'g, 'c, 'a) access_manager \<Rightarrow> ('u, 'g, 'c, 'a) outcome" where
  "remove_group_to_application_component_and_access_level_mapping grp application_component
       access_level s =
     (if grp \<notin> groups s then (Some (DoesNotExist Group ''group''), s)
      else
        let component_and_access = (application_component, access_level) in
        (case fmlookup (group_to_component_map s) grp of
           Some row \<Rightarrow>
             if component_and_access \<in> row then
               let s1 = s\<lparr>group_to_component_map :=
                          fmupd grp (row - {component_and_access}) (group_to_component_map s)\<rparr>
               in if row - {component_and_access} = {} then (Some AttributeError, s1)
                  else (None, s1)
             else (Some (DoesNotExist GroupToComponentMapping []), s)
         | None \<Rightarrow> (Some (DoesNotExist GroupToComponentMapping []), s)))"

subsection \<open>Entity types and entities\<close>

text \<open>
  \<open>str.isspace\<close>: the string is not empty and every character is whitespace. On the code
  points below 256 Python counts as whitespace 9 to 13, 28 to 32, 133 and 160.
\<close>

definition is_whitespace :: "char \<Rightarrow> bool" where
  "is_whitespace c =
     (of_char c \<in> {9, 10, 11, 12, 13, 28, 29, 30, 31, 32, 133, 160 :: nat})"

definition isspace :: "string \<Rightarrow> bool" where
  "isspace str = (str \<noteq> [] \<and> list_all is_whitespace str)"

definition add_entity_type ::
  "string \<Rightarrow> ('u, 'g, 'c, 'a) access_manager \<Rightarrow> ('u, 'g, 'c, 'a) outcome" where
  "add_entity_type entity_type s =
     (if entity_type \<in> fmdom' (entities s) then (Some (AlreadyExists EntityType), s)
      else if length entity_type = 0 \<or> isspace entity_type = True
        then (Some (MustContainValidCharacter EntityType), s)
      else (None, s\<lparr>entities := fmupd entity_type {} (entities s)\<rparr>))"

definition contains_entity_type :: "('u, 'g, 'c, 'a) access_manager \<Rightarrow> string \<Rightarrow> bool" where
  "contains_entity_type s entity_type = (entity_type \<in> fmdom' (entities s))"

definition remove_entity_type ::
  "string \<Rightarrow> ('u, 'g, 'c, 'a) access_manager \<Rightarrow> ('u, 'g, 'c, 'a) outcome" where
  "remove_entity_type entity_type s =
     (if entity_type \<notin> fmdom' (entities s)
        then (Some (DoesNotExist EntityType ''entity_type''), s)
      else
        (None, s\<lparr>
           user_to_entity_map :=
             fmmap (\<lambda>current_user_entities.
                      if entity_type \<in> fmdom' current_user_entities
                      then fmdrop entity_type current_user_entities
                      else current_user_entities) (user_to_entity_map s),
           group_to_entity_map :=
             fmmap (\<lambda>current_group_entities.
                      if entity_type \<in> fmdom' current_group_entities
                      then fmdrop entity_type current_group_entities
                      else current_group_entities) (group_to_entity_map s),
           entities := fmdrop entity_type (entities s)\<rparr>))"

definition add_entity ::
  "string \<Rightarrow> string \<Rightarrow> ('u, 'g, 'c, 'a) access_manager \<Rightarrow> ('u, 'g, 'c, 'a) outcome" where
  "add_entity entity_type entity s =
     (case fmlookup (entities s) entity_type of
        None \<Rightarrow> (Some (DoesNotExist EntityType ''entity_type''), s)
      | Some es \<Rightarrow>
          if entity \<in> es then (Some (AlreadyExists Entity), s)
          else if length entity = 0 \<or> isspace entity = True
            then (Some (MustContainValidCharacter Entity), s)
          else (None, s\<lparr>entities := fmupd entity_type (insert entity es) (entities s)\<rparr>))"

definition get_entities :: "('u, 'g, 'c, 'a) access_manager \<Rightarrow> string \<Rightarrow> error + string set" where
  "get_entities s entity_type =
     (case fmlookup (entities s) entity_type of
        None \<Rightarrow> Inl (DoesNotExist EntityType ''entity_type'')
      | Some es \<Rightarrow> Inr es)"

definition contains_entity :: "('u, 'g, 'c, 'a) access_manager \<Rightarrow> string \<Rightarrow> string \<Rightarrow> bool" where
  "contains_entity s entity_type entity =
     (case fmlookup (entities s) entity_type of
        None \<Rightarrow> False
      | Some es \<Rightarrow> entity \<in> es)"

text \<open>
  What \<open>remove_entity\<close> does to one value of an entity mapping dictionary (the entities a
  user or group is mapped to, by type).
\<close>

definition remove_entity_from_row ::
  "string \<Rightarrow> string \<Rightarrow> (string, string set) fmap \<Rightarrow> (string, string set) fmap" where
  "remove_entity_from_row entity_type entity current_entities =
     (case fmlookup current_entities entity_type of
        Some es \<Rightarrow>
          if entity \<in> es then fmupd entity_type (es - {entity}) current_entities
          else current_entities
      | None \<Rightarrow> current_entities)"

definition remove_entity ::
  "string \<Rightarrow> string \<Rightarrow> ('u, 'g, 'c, 'a) access_manager \<Rightarrow> ('u, 'g, 'c, 'a) outcome" where
  "remove_entity entity_type entity s =
     (case fmlookup (entities s) entity_type of
        None \<Rightarrow> (Some (DoesNotExist EntityType ''entity_type''), s)
      | Some es \<Rightarrow>
          if entity \<notin> es then (Some (DoesNotExist Entity ''entity''), s)
          else
            (None, s\<lparr>
               user_to_entity_map :=
                 fmmap (remove_entity_from_row entity_type entity) (user_to_entity_map s),
               group_to_entity_map :=
                 fmmap (remove_entity_from_row entity_type entity) (group_to_entity_map s),
               entities := fmupd entity_type (es - {entity}) (entities s)\<rparr>))"

subsection \<open>Entity mappings\<close>

text \<open>
  \<open>m[k][entity_type]\<close> guarded by \<open>k in m and entity_type in m[k]\<close>, for an entity mapping
  dictionary \<open>m\<close>: the set when both keys are there.
\<close>

definition mapped_entities_of ::
  "('k, (string, string set) fmap) fmap \<Rightarrow> 'k \<Rightarrow> string \<Rightarrow> string set option" where
  "mapped_entities_of m k entity_type =
     (case fmlookup m k of
        None \<Rightarrow> None
      | Some row \<Rightarrow> fmlookup row entity_type)"

text \<open>
  The three statements that end \<open>add_user_to_entity_mapping\<close> and
  \<open>add_group_to_entity_mapping\<close>: create the row, create the set, add the entity.
\<close>

definition add_to_entity_map ::
  "'k \<Rightarrow> string \<Rightarrow> string \<Rightarrow> ('k, (string, string set) fmap) fmap
     \<Rightarrow> ('k, (string, string set) fmap) fmap" where
  "add_to_entity_map k entity_type entity m =
     (let m1 = (if k \<notin> fmdom' m then fmupd k fmempty m else m);
          row = (case fmlookup m1 k of Some r \<Rightarrow> r | None \<Rightarrow> fmempty);
          row1 = (if entity_type \<notin> fmdom' row then fmupd entity_type {} row else row);
          es = (case fmlookup row1 entity_type of Some x \<Rightarrow> x | None \<Rightarrow> {})
      in fmupd k (fmupd entity_type (insert entity es) row1) m1)"

definition add_user_to_entity_mapping ::
  "'u \<Rightarrow> string \<Rightarrow> string \<Rightarrow> ('u, 'g, 'c, 'a) access_manager \<Rightarrow> ('u, 'g, 'c, 'a) outcome" where
  "add_user_to_entity_mapping user entity_type entity s =
     (if user \<notin> users s then (Some (DoesNotExist User ''user''), s)
      else
        (case fmlookup (entities s) entity_type of
           None \<Rightarrow> (Some (DoesNotExist EntityType ''entity_type''), s)
         | Some all_entities \<Rightarrow>
             if entity \<notin> all_entities then (Some (DoesNotExist Entity ''entity''), s)
             else if (case mapped_entities_of (user_to_entity_map s) user entity_type of
                        Some es \<Rightarrow> entity \<in> es | None \<Rightarrow> False)
               then (Some (AlreadyExists UserToEntityMapping), s)
             else (None, s\<lparr>user_to_entity_map :=
                     add_to_entity_map user entity_type entity (user_to_entity_map s)\<rparr>)))"

definition get_user_to_entity_mappings_for_user_and_entity_type ::
  "('u, 'g, 'c, 'a) access_manager \<Rightarrow> 'u \<Rightarrow> string \<Rightarrow> error + string set" where
  "get_user_to_entity_mappings_for_user_and_entity_type s user entity_type =
     (if user \<notin> users s then Inl (DoesNotExist User ''user'')
      else if entity_type \<notin> fmdom' (entities s)
        then Inl (DoesNotExist EntityType ''entity_type'')
      else (case mapped_entities_of (user_to_entity_map s) user entity_type of
              Some es \<Rightarrow> Inr es
            | None \<Rightarrow> Inr {}))"

definition remove_user_to_entity_mapping ::
  "'u \<Rightarrow> string \<Rightarrow> string \<Rightarrow> ('u, 'g, 'c, 'a) access_manager \<Rightarrow> ('u, 'g, 'c, 'a) outcome" where
  "remove_user_to_entity_mapping user entity_type entity s =
     (if user \<notin> users s then (Some (DoesNotExist User ''user''), s)
      else
        (case fmlookup (entities s) entity_type of
           None \<Rightarrow> (Some (DoesNotExist EntityType ''entity_type''), s)
         | Some all_entities \<Rightarrow>
             if entity \<notin> all_entities then (Some (DoesNotExist Entity ''entity''), s)
             else
               (case fmlookup (user_to_entity_map s) user of
                  None \<Rightarrow> (Some (DoesNotExist UserToEntityMapping []), s)
                | Some row \<Rightarrow>
                    (case fmlookup row entity_type of
                       None \<Rightarrow> (Some (DoesNotExist UserToEntityMapping []), s)
                     | Some es \<Rightarrow>
                         if entity \<notin> es then (Some (DoesNotExist UserToEntityMapping []), s)
                         else (None, s\<lparr>user_to_entity_map :=
                                 fmupd user (fmupd entity_type (es - {entity}) row)
                                   (user_to_entity_map s)\<rparr>)))))"

definition add_group_to_entity_mapping ::
  "'g \<Rightarrow> string \<Rightarrow> string \<Rightarrow> ('u, 'g, 'c, 'a) access_manager \<Rightarrow> ('u, 'g, 'c, 'a) outcome" where
  "add_group_to_entity_mapping grp entity_type entity s =
     (if grp \<notin> groups s then (Some (DoesNotExist Group ''group''), s)
      else
        (case fmlookup (entities s) entity_type of
           None \<Rightarrow> (Some (DoesNotExist EntityType ''entity_type''), s)
         | Some all_entities \<Rightarrow>
             if entity \<notin> all_entities then (Some (DoesNotExist Entity ''entity''), s)
             else if (case mapped_entities_of (group_to_entity_map s) grp entity_type of
                        Some es \<Rightarrow> entity \<in> es | None \<Rightarrow> False)
               then (Some (AlreadyExists GroupToEntityMapping), s)
             else (None, s\<lparr>group_to_entity_map :=
                     add_to_entity_map grp entity_type entity (group_to_entity_map s)\<rparr>)))"

definition get_group_to_entity_mappings_for_group_and_entity_type ::
  "('u, 'g, 'c, 'a) access_manager \<Rightarrow> 'g \<Rightarrow> string \<Rightarrow> error + string set" where
  "get_group_to_entity_mappings_for_group_and_entity_type s grp entity_type =
     (if grp \<notin> groups s then Inl (DoesNotExist Group ''group'')
      else if entity_type \<notin> fmdom' (entities s)
        then Inl (DoesNotExist EntityType ''entity_type'')
      else (case mapped_entities_of (group_to_entity_map s) grp entity_type of
              Some es \<Rightarrow> Inr es
            | None \<Rightarrow> Inr {}))"

definition remove_group_to_entity_mapping ::
  "'g \<Rightarrow> string \<Rightarrow> string \<Rightarrow> ('u, 'g, 'c, 'a) access_manager \<Rightarrow> ('u, 'g, 'c, 'a) outcome" where
  "remove_group_to_entity_mapping grp entity_type entity s =
     (if grp \<notin> groups s then (Some (DoesNotExist Group ''group''), s)
      else
        (case fmlookup (entities s) entity_type of
           None \<Rightarrow> (Some (DoesNotExist EntityType ''entity_type''), s)
         | Some all_entities \<Rightarrow>
             if entity \<notin> all_entities then (Some (DoesNotExist Entity ''entity''), s)
             else
               (case fmlookup (group_to_entity_map s) grp of
                  None \<Rightarrow> (Some (DoesNotExist GroupToEntityMapping []), s)
                | Some row \<Rightarrow>
                    (case fmlookup row entity_type of
                       None \<Rightarrow> (Some (DoesNotExist GroupToEntityMapping []), s)
                     | Some es \<Rightarrow>
                         if entity \<notin> es then (Some (DoesNotExist GroupToEntityMapping []), s)
                         else (None, s\<lparr>group_to_entity_map :=
                                 fmupd grp (fmupd entity_type (es - {entity}) row)
                                   (group_to_entity_map s)\<rparr>)))))"

subsection \<open>Generator methods\<close>

text \<open>
  \<open>get_user_to_entity_mappings_for_user\<close> and \<open>get_group_to_entity_mappings_for_group\<close>
  contain \<open>yield\<close>, so Python compiles each into a generator function: the call binds the
  arguments and returns a generator object without running any statement of the body, and
  the body runs when the generator is advanced. A generator is its suspended body: what
  running it gives, an error or the pairs it yields. The pairs come out in the iteration
  order of a dictionary and of sets; the model keeps the set of them.
\<close>

datatype 'x generator = Generator "error + 'x set"

fun advance :: "'x generator \<Rightarrow> error + 'x set" where
  "advance (Generator body) = body"

definition entity_pairs :: "(string, string set) fmap \<Rightarrow> (string \<times> string) set" where
  "entity_pairs row =
     {(current_entity_type, current_entity).
        case fmlookup row current_entity_type of
          Some es \<Rightarrow> current_entity \<in> es
        | None \<Rightarrow> False}"

definition get_user_to_entity_mappings_for_user ::
  "('u, 'g, 'c, 'a) access_manager \<Rightarrow> 'u \<Rightarrow> error + (string \<times> string) generator" where
  "get_user_to_entity_mappings_for_user s user =
     Inr (Generator
       (if user \<notin> users s then Inl (DoesNotExist User ''user'')
        else (case fmlookup (user_to_entity_map s) user of
                Some row \<Rightarrow> Inr (entity_pairs row)
              | None \<Rightarrow> Inr {})))"

definition get_group_to_entity_mappings_for_group ::
  "('u, 'g, 'c, 'a) access_manager \<Rightarrow> 'g \<Rightarrow> error + (string \<times> string) generator" where
  "get_group_to_entity_mappings_for_group s grp =
     Inr (Generator
       (if grp \<notin> groups s then Inl (DoesNotExist Group ''group'')
        else (case fmlookup (group_to_entity_map s) grp of
                Some row \<Rightarrow> Inr (entity_pairs row)
              | None \<Rightarrow> Inr {})))"

subsection \<open>Queries\<close>

definition has_access_to_application_component ::
  "nat \<Rightarrow> ('u, 'g, 'c, 'a) access_manager \<Rightarrow> 'u \<Rightarrow> 'c \<Rightarrow> 'a \<Rightarrow> (error + bool) option" where
  "has_access_to_application_component fuel s user application_component access_level =
     (if user \<notin> users s then Some (Inr False)
      else if (case fmlookup (user_to_component_map s) user of
                 Some row \<Rightarrow> (application_component, access_level) \<in> row
               | None \<Rightarrow> False)
        then Some (Inr True)
      else
        (case traverse_user_and_group_graph_from_user fuel s user
                (CheckForAccessTraverserAction_invoke application_component access_level
                   (group_to_component_map s)) False of
           None \<Rightarrow> None
         | Some (Inl e) \<Rightarrow> Some (Inl e)
         | Some (Inr has_access) \<Rightarrow> Some (Inr has_access)))"

definition has_access_to_entity ::
  "nat \<Rightarrow> ('u, 'g, 'c, 'a) access_manager \<Rightarrow> 'u \<Rightarrow> string \<Rightarrow> string \<Rightarrow> (error + bool) option"
  where
  "has_access_to_entity fuel s user entity_type entity =
     (case fmlookup (entities s) entity_type of
        None \<Rightarrow> Some (Inl (DoesNotExist EntityType ''entity_type''))
      | Some all_entities \<Rightarrow>
          if entity \<notin> all_entities then Some (Inl (DoesNotExist Entity ''entity''))
          else if user \<notin> users s then Some (Inr False)
          else if (case mapped_entities_of (user_to_entity_map s) user entity_type of
                     Some es \<Rightarrow> entity \<in> es | None \<Rightarrow> False)
            then Some (Inr True)
          else
            (case traverse_user_and_group_graph_from_user fuel s user
                    (CheckForEntityMappingTraverserAction_invoke entity_type entity
                       (group_to_entity_map s)) False of
               None \<Rightarrow> None
             | Some (Inl e) \<Rightarrow> Some (Inl e)
             | Some (Inr has_access) \<Rightarrow> Some (Inr has_access)))"

definition get_accessible_entities ::
  "nat \<Rightarrow> ('u, 'g, 'c, 'a) access_manager \<Rightarrow> 'u \<Rightarrow> string \<Rightarrow> (error + string set) option" where
  "get_accessible_entities fuel s user entity_type =
     (if user \<notin> users s then Some (Inl (DoesNotExist User ''user''))
      else if entity_type \<notin> fmdom' (entities s)
        then Some (Inl (DoesNotExist EntityType ''entity_type''))
      else
        (case get_user_to_entity_mappings_for_user_and_entity_type s user entity_type of
           Inl e \<Rightarrow> Some (Inl e)
         | Inr user_mapped_entities \<Rightarrow>
             (case traverse_user_and_group_graph_from_user fuel s user
                     (AddMappedEntitiesToSetTraverserAction_invoke entity_type
                        (group_to_entity_map s)) {} of
                None \<Rightarrow> None
              | Some (Inl e) \<Rightarrow> Some (Inl e)
              | Some (Inr mapped_entities) \<Rightarrow>
                  Some (Inr (user_mapped_entities \<union> mapped_entities)))))"

section \<open>Notions the properties are stated with\<close>

text \<open>The relation of the group to group edges: \<open>(g, h)\<close> when \<open>h\<close> is in the row of \<open>g\<close>.\<close>

definition group_edges :: "('u, 'g, 'c, 'a) access_manager \<Rightarrow> ('g \<times> 'g) set" where
  "group_edges s =
     {(g, h). case fmlookup (group_to_group_graph_edges s) g of
                Some row \<Rightarrow> h \<in> set row
              | None \<Rightarrow> False}"

text \<open>The groups a depth first search from \<open>g\<close> over the group to group edges reaches,
  \<open>g\<close> among them.\<close>

definition reach :: "('u, 'g, 'c, 'a) access_manager \<Rightarrow> 'g \<Rightarrow> 'g set" where
  "reach s g = (group_edges s)\<^sup>* `` {g}"

text \<open>The groups reachable from a user: one user to group edge, then any number of group
  to group edges.\<close>

definition user_reach :: "('u, 'g, 'c, 'a) access_manager \<Rightarrow> 'u \<Rightarrow> 'g set" where
  "user_reach s user =
     (case fmlookup (user_to_group_graph_edges s) user of
        Some row \<Rightarrow> (\<Union>g\<in>set row. reach s g)
      | None \<Rightarrow> {})"

text \<open>
  The global invariants of a state. Referential integrity: every key of a mapping
  dictionary is a present user or group and every entity type and entity of an entity mapping
  is declared (\<open>mapping_integrity\<close>), and every key and value of an edge dictionary is a
  present user or group (\<open>edge_integrity\<close>). No row of edges holds a group twice. No group has an edge to
  itself. The group to group edges have no cycle.
\<close>

definition entity_row_valid ::
  "('u, 'g, 'c, 'a) access_manager \<Rightarrow> (string, string set) fmap \<Rightarrow> bool" where
  "entity_row_valid s row =
     (\<forall>t es. fmlookup row t = Some es \<longrightarrow>
        (\<exists>all_entities. fmlookup (entities s) t = Some all_entities \<and> es \<subseteq> all_entities))"

definition mapping_integrity :: "('u, 'g, 'c, 'a) access_manager \<Rightarrow> bool" where
  "mapping_integrity s =
     (fmdom' (user_to_component_map s) \<subseteq> users s \<and>
      fmdom' (user_to_entity_map s) \<subseteq> users s \<and>
      fmdom' (group_to_component_map s) \<subseteq> groups s \<and>
      fmdom' (group_to_entity_map s) \<subseteq> groups s \<and>
      (\<forall>u row. fmlookup (user_to_entity_map s) u = Some row \<longrightarrow> entity_row_valid s row) \<and>
      (\<forall>g row. fmlookup (group_to_entity_map s) g = Some row \<longrightarrow> entity_row_valid s row))"

definition edge_integrity :: "('u, 'g, 'c, 'a) access_manager \<Rightarrow> bool" where
  "edge_integrity s =
     (fmdom' (user_to_group_graph_edges s) \<subseteq> users s \<and>
      (\<forall>u row. fmlookup (user_to_group_graph_edges s) u = Some row \<longrightarrow> set row \<subseteq> groups s) \<and>
      fmdom' (group_to_group_graph_edges s) \<subseteq> groups s \<and>
      (\<forall>g row. fmlookup (group_to_group_graph_edges s) g = Some row \<longrightarrow> set row \<subseteq> groups s))"

definition referential_integrity :: "('u, 'g, 'c, 'a) access_manager \<Rightarrow> bool" where
  "referential_integrity s = (mapping_integrity s \<and> edge_integrity s)"

definition no_duplicate_edges :: "('u, 'g, 'c, 'a) access_manager \<Rightarrow> bool" where
  "no_duplicate_edges s =
     ((\<forall>u row. fmlookup (user_to_group_graph_edges s) u = Some row \<longrightarrow> distinct row) \<and>
      (\<forall>g row. fmlookup (group_to_group_graph_edges s) g = Some row \<longrightarrow> distinct row))"

definition global_invariants :: "('u, 'g, 'c, 'a) access_manager \<Rightarrow> bool" where
  "global_invariants s =
     (referential_integrity s \<and> no_duplicate_edges s \<and>
      (\<forall>g. (g, g) \<notin> group_edges s) \<and> acyclic (group_edges s))"

text \<open>
  An action wrapped so that its calls can be counted: the wrapped action does what the
  action does and appends the group it was invoked on to a log.
\<close>

definition logged :: "('g, 'v) action \<Rightarrow> ('g, 'g list \<times> 'v) action" where
  "logged group_action g lv =
     (case group_action g (snd lv) of
        Inl e \<Rightarrow> Inl e
      | Inr (keep_traversing, v') \<Rightarrow> Inr (keep_traversing, (fst lv @ [g], v')))"

text \<open>The action that looks at nothing and always asks to keep traversing.\<close>

definition keep_going :: "('g, unit) action" where
  "keep_going g v = Inr (True, v)"

text \<open>
  The two access checks look for a group that is a hit. The field \<open>_has_access\<close> after
  the action has been invoked on the groups of a set: set if it was, or if one is a hit.
\<close>

definition hit_post :: "('g \<Rightarrow> bool) \<Rightarrow> 'g set \<Rightarrow> bool \<Rightarrow> bool" where
  "hit_post hit S b = (b \<or> (\<exists>g\<in>S. hit g))"

definition component_hit :: "'c \<Rightarrow> 'a \<Rightarrow> ('k, ('c \<times> 'a) set) fmap \<Rightarrow> 'k \<Rightarrow> bool" where
  "component_hit c a m k =
     (case fmlookup m k of Some row \<Rightarrow> (c, a) \<in> row | None \<Rightarrow> False)"

text \<open>
  The entities of a type that an entity mapping dictionary holds for a key, none when the
  key or the type is missing; and the field \<open>_mapped_entities\<close> after the collecting action
  has been invoked on the groups of a set.
\<close>

definition mapped_set :: "('k, (string, string set) fmap) fmap \<Rightarrow> 'k \<Rightarrow> string \<Rightarrow> string set" where
  "mapped_set m k entity_type =
     (case mapped_entities_of m k entity_type of Some es \<Rightarrow> es | None \<Rightarrow> {})"

definition collect_post ::
  "string \<Rightarrow> ('g, (string, string set) fmap) fmap \<Rightarrow> 'g set \<Rightarrow> string set \<Rightarrow> string set" where
  "collect_post entity_type gem S acc = acc \<union> (\<Union>g\<in>S. mapped_set gem g entity_type)"

text \<open>
  A small state for concrete instances: user 10 is in group 20, group 20 is mapped to group
  21, and users 10 and group 21 hold one component mapping and one entity mapping each.
\<close>

definition example_manager :: "(nat, nat, nat, nat) access_manager" where
  "example_manager =
     \<lparr> users = {10, 11}, groups = {20, 21, 22},
       user_to_group_graph_edges = fmupd 10 [20] fmempty,
       group_to_group_graph_edges = fmupd 20 [21] fmempty,
       user_to_component_map = fmupd 10 {(30, 40)} fmempty,
       group_to_component_map = fmupd 21 {(31, 41)} fmempty,
       entities = fmupd ''T'' {''E'', ''F''} fmempty,
       user_to_entity_map = fmupd 10 (fmupd ''T'' {''E''} fmempty) fmempty,
       group_to_entity_map = fmupd 21 (fmupd ''T'' {''F''} fmempty) fmempty \<rparr>"

text \<open>
  A dictionary of edge rows with an empty row for \<open>k\<close> if it has none, and an entity
  mapping dictionary with a row for \<open>k\<close> and in it an entry for the entity type, empty if
  they were missing: what an add followed by the matching remove leaves behind.
\<close>

definition with_row :: "'k \<Rightarrow> ('k, 'g list) fmap \<Rightarrow> ('k, 'g list) fmap" where
  "with_row k m = (case fmlookup m k of Some row \<Rightarrow> m | None \<Rightarrow> fmupd k [] m)"

definition with_entity_row ::
  "'k \<Rightarrow> string \<Rightarrow> ('k, (string, string set) fmap) fmap \<Rightarrow> ('k, (string, string set) fmap) fmap"
  where
  "with_entity_row k entity_type m =
     (let row = (case fmlookup m k of Some r \<Rightarrow> r | None \<Rightarrow> fmempty);
          es = (case fmlookup row entity_type of Some x \<Rightarrow> x | None \<Rightarrow> {})
      in fmupd k (fmupd entity_type es row) m)"

text \<open>
  A state in which two paths converge on group 21: user 10 is in groups 20 and 21, and group
  20 is mapped to group 21.
\<close>

definition converging_manager :: "(nat, nat, nat, nat) access_manager" where
  "converging_manager =
     init\<lparr> users := {10}, groups := {20, 21},
           user_to_group_graph_edges := fmupd 10 [20, 21] fmempty,
           group_to_group_graph_edges := fmupd 20 [21] fmempty \<rparr>"

section \<open>The traversal\<close>

subsection \<open>The edge relation\<close>

lemma group_edges_iff:
  "(g, h) \<in> group_edges s \<longleftrightarrow> (\<exists>row. fmlookup (group_to_group_graph_edges s) g = Some row \<and> h \<in> set row)"
  by (auto simp: group_edges_def split: option.splits)

lemma finite_group_edges: "finite (group_edges s)"
proof -
  let ?m = "group_to_group_graph_edges s"
  have "group_edges s \<subseteq> (\<Union>g\<in>fmdom' ?m. {g} \<times> set (the (fmlookup ?m g)))"
    by (auto simp: group_edges_iff intro: fmdom'I)
  moreover have "finite (\<Union>g\<in>fmdom' ?m. {g} \<times> set (the (fmlookup ?m g)))"
    by (simp add: fmdom'_alt_def)
  ultimately show ?thesis by (rule finite_subset)
qed

lemma for_next_edge_group_returns:
  assumes "\<And>g vis w. g \<in> set row \<Longrightarrow> recurse g vis w \<noteq> None"
  shows "for_next_edge_group recurse row vis k v \<noteq> None"
  using assms
proof (induction row arbitrary: k v)
  case Nil
  then show ?case by simp
next
  case (Cons h row)
  have "recurse h vis v \<noteq> None" using Cons.prems by simp
  moreover have "\<And>k v. for_next_edge_group recurse row vis k v \<noteq> None"
    using Cons.IH Cons.prems by simp
  ultimately show ?case by (auto split: sum.splits prod.splits)
qed

lemma for_next_user_edge_group_returns:
  assumes "\<And>g vis w. g \<in> set row \<Longrightarrow> recurse g vis w \<noteq> None"
  shows "for_next_user_edge_group recurse row vis v \<noteq> None"
  using assms
proof (induction row arbitrary: v)
  case Nil
  then show ?case by simp
next
  case (Cons h row)
  have "recurse h vis v \<noteq> None" using Cons.prems by simp
  moreover have "\<And>v. for_next_user_edge_group recurse row vis v \<noteq> None"
    using Cons.IH Cons.prems by simp
  ultimately show ?case by (auto split: sum.splits prod.splits)
qed

lemma recurse_returns:
  assumes acyc: "acyclic (group_edges s)"
  shows "\<exists>n. \<forall>m\<ge>n. \<forall>vis v.
           traverse_user_and_group_graph_from_group_recurse m s g vis act v \<noteq> None"
proof -
  have wf: "wf ((group_edges s)\<inverse>)"
    using finite_group_edges acyc by (rule finite_acyclic_wf_converse)
  show ?thesis
  proof (induction g rule: wf_induct_rule [OF wf])
    case (1 g)
    show ?case
    proof (cases "fmlookup (group_to_group_graph_edges s) g")
      case None
      have "\<forall>m\<ge>Suc 0. \<forall>vis v.
              traverse_user_and_group_graph_from_group_recurse m s g vis act v \<noteq> None"
      proof (intro allI impI)
        fix m vis v assume "Suc 0 \<le> m"
        then obtain m' where "m = Suc m'" by (cases m) auto
        then show "traverse_user_and_group_graph_from_group_recurse m s g vis act v \<noteq> None"
          using None by (simp split: sum.splits prod.splits)
      qed
      then show ?thesis by blast
    next
      case (Some row)
      have "\<forall>h\<in>set row. \<exists>n. \<forall>m\<ge>n. \<forall>vis v.
              traverse_user_and_group_graph_from_group_recurse m s h vis act v \<noteq> None"
        using 1 Some by (auto simp: group_edges_iff)
      then obtain f where f: "\<forall>h\<in>set row. \<forall>m\<ge>f h. \<forall>vis v.
              traverse_user_and_group_graph_from_group_recurse m s h vis act v \<noteq> None"
        by metis
      let ?N = "sum_list (map f row)"
      have le: "\<And>h. h \<in> set row \<Longrightarrow> f h \<le> ?N"
        by (simp add: member_le_sum_list)
      have "\<forall>m\<ge>Suc ?N. \<forall>vis v.
              traverse_user_and_group_graph_from_group_recurse m s g vis act v \<noteq> None"
      proof (intro allI impI)
        fix m vis v assume "Suc ?N \<le> m"
        then obtain m' where m: "m = Suc m'" and m': "?N \<le> m'" by (cases m) auto
        have "\<And>h vis w. h \<in> set row \<Longrightarrow>
                traverse_user_and_group_graph_from_group_recurse m' s h vis act w \<noteq> None"
          using f le m' by (meson le_trans)
        then have "\<And>k w. for_next_edge_group
                 (\<lambda>g vis w. traverse_user_and_group_graph_from_group_recurse m' s g vis act w)
                 row vis k w \<noteq> None"
          by (rule for_next_edge_group_returns)
        then show "traverse_user_and_group_graph_from_group_recurse m s g vis act v \<noteq> None"
          using Some m by (simp split: sum.splits prod.splits)
      qed
      then show ?thesis by blast
    qed
  qed
qed

subsection \<open>What a traversal computes\<close>

text \<open>
  For an action that never raises, whose effect on its fields after being invoked on the
  groups of a set is \<open>post\<close> of that set, and whose fields no longer change once it has
  returned \<open>False\<close>: if the recursion from \<open>g\<close> returns, the fields are \<open>post\<close> of the groups
  reachable from \<open>g\<close>. The \<open>break\<close> skips only groups that would not change the fields.
\<close>

lemma reach_None:
  "fmlookup (group_to_group_graph_edges s) g = None \<Longrightarrow> reach s g = {g}"
  unfolding reach_def
  by (auto simp: group_edges_iff elim: converse_rtranclE)

lemma reach_Some:
  assumes "fmlookup (group_to_group_graph_edges s) g = Some row"
  shows "reach s g = {g} \<union> (\<Union>h\<in>set row. reach s h)"
proof -
  have "\<exists>h\<in>set row. (h, x) \<in> (group_edges s)\<^sup>*"
    if "(g, x) \<in> (group_edges s)\<^sup>*" "x \<noteq> g" for x
    using that
  proof (cases rule: converse_rtranclE)
    case base
    then show ?thesis using that by simp
  next
    case (step y)
    then show ?thesis using assms by (auto simp: group_edges_iff)
  qed
  moreover have "\<And>h x. h \<in> set row \<Longrightarrow> (h, x) \<in> (group_edges s)\<^sup>* \<Longrightarrow> (g, x) \<in> (group_edges s)\<^sup>*"
    using assms by (meson converse_rtrancl_into_rtrancl group_edges_iff)
  ultimately show ?thesis unfolding reach_def by auto
qed

lemma for_next_edge_group_post:
  assumes IH: "\<And>h v r. h \<in> set row \<Longrightarrow> recurse h {} v = Some r \<Longrightarrow>
                 \<exists>k. r = Inr (k, post (R h) v) \<and> (\<not> k \<longrightarrow> (\<forall>S. post S (post (R h) v) = post (R h) v))"
      and un: "\<And>A B v. post (A \<union> B) v = post B (post A v)"
      and emp: "\<And>v. post {} v = v"
      and k0: "\<not> k0 \<longrightarrow> (\<forall>S. post S v0 = v0)"
      and run: "for_next_edge_group recurse row {} k0 v0 = Some r"
  shows "\<exists>k. r = Inr (k, post (\<Union>h\<in>set row. R h) v0) \<and>
              (\<not> k \<longrightarrow> (\<forall>S. post S (post (\<Union>h\<in>set row. R h) v0) = post (\<Union>h\<in>set row. R h) v0))"
  using IH k0 run
proof (induction row arbitrary: k0 v0)
  case Nil
  then show ?case by (auto simp: emp)
next
  case (Cons h row)
  from Cons.prems(3) obtain r1 where r1: "recurse h {} v0 = Some r1"
    by (auto split: option.splits)
  from Cons.prems(1) [of h v0 r1] r1 obtain k1 where
    k1: "r1 = Inr (k1, post (R h) v0)" and
    ab1: "\<not> k1 \<longrightarrow> (\<forall>S. post S (post (R h) v0) = post (R h) v0)" by auto
  have split: "post (\<Union>x\<in>set (h # row). R x) v0 = post (\<Union>x\<in>set row. R x) (post (R h) v0)"
    using un [of "R h" "\<Union>x\<in>set row. R x" v0] by simp
  show ?case
  proof (cases k1)
    case False
    then have "r = Inr (k1, post (R h) v0)" using Cons.prems(3) r1 k1 by simp
    moreover have "post (\<Union>x\<in>set row. R x) (post (R h) v0) = post (R h) v0"
      using ab1 False by simp
    ultimately show ?thesis using False ab1 split by auto
  next
    case True
    then have run': "for_next_edge_group recurse row {} k1 (post (R h) v0) = Some r"
      using Cons.prems(3) r1 k1 by simp
    have "\<exists>k. r = Inr (k, post (\<Union>h\<in>set row. R h) (post (R h) v0)) \<and>
              (\<not> k \<longrightarrow> (\<forall>S. post S (post (\<Union>h\<in>set row. R h) (post (R h) v0))
                   = post (\<Union>h\<in>set row. R h) (post (R h) v0)))"
      using Cons.IH [OF _ _ run'] Cons.prems(1) True by simp
    then show ?thesis using split by simp
  qed
qed

lemma recurse_post:
  assumes act: "\<And>g v. \<exists>k. act g v = Inr (k, post {g} v) \<and>
                        (\<not> k \<longrightarrow> (\<forall>S. post S (post {g} v) = post {g} v))"
      and un: "\<And>A B v. post (A \<union> B) v = post B (post A v)"
      and emp: "\<And>v. post {} v = v"
  shows "traverse_user_and_group_graph_from_group_recurse n s g {} act v = Some r \<Longrightarrow>
           \<exists>k. r = Inr (k, post (reach s g) v) \<and>
               (\<not> k \<longrightarrow> (\<forall>S. post S (post (reach s g) v) = post (reach s g) v))"
proof (induction n arbitrary: g v r)
  case 0
  then show ?case by simp
next
  case (Suc n)
  from act [of g v] obtain k where
    a: "act g v = Inr (k, post {g} v)" and
    ab: "\<not> k \<longrightarrow> (\<forall>S. post S (post {g} v) = post {g} v)" by blast
  show ?case
  proof (cases "fmlookup (group_to_group_graph_edges s) g")
    case None
    then have "r = Inr (k, post {g} v)" using Suc.prems a by simp
    then show ?thesis using ab by (simp add: reach_None [OF None])
  next
    case (Some row)
    have run: "for_next_edge_group
                 (\<lambda>g vis w. traverse_user_and_group_graph_from_group_recurse n s g vis act w)
                 row {} k (post {g} v) = Some r"
      using Suc.prems a Some by simp
    have "\<exists>k'. r = Inr (k', post (\<Union>h\<in>set row. reach s h) (post {g} v)) \<and>
              (\<not> k' \<longrightarrow> (\<forall>S. post S (post (\<Union>h\<in>set row. reach s h) (post {g} v))
                    = post (\<Union>h\<in>set row. reach s h) (post {g} v)))"
      by (rule for_next_edge_group_post [OF _ un emp ab run]) (rule Suc.IH)
    moreover have "post (reach s g) v = post (\<Union>h\<in>set row. reach s h) (post {g} v)"
      using un [of "{g}" "\<Union>h\<in>set row. reach s h" v] by (simp add: reach_Some [OF Some])
    ultimately show ?thesis by simp
  qed
qed

lemma for_next_user_edge_group_post:
  assumes IH: "\<And>h v r. h \<in> set row \<Longrightarrow> recurse h {} v = Some r \<Longrightarrow>
                 \<exists>k. r = Inr (k, post (R h) v)"
      and un: "\<And>A B v. post (A \<union> B) v = post B (post A v)"
      and emp: "\<And>v. post {} v = v"
      and run: "for_next_user_edge_group recurse row {} v0 = Some r"
  shows "r = Inr (post (\<Union>h\<in>set row. R h) v0)"
  using IH run
proof (induction row arbitrary: v0)
  case Nil
  then show ?case by (auto simp: emp)
next
  case (Cons h row)
  from Cons.prems(2) obtain r1 where r1: "recurse h {} v0 = Some r1"
    by (auto split: option.splits)
  from Cons.prems(1) [of h v0 r1] r1 obtain k1 where
    k1: "r1 = Inr (k1, post (R h) v0)" by auto
  have split: "post (\<Union>x\<in>set (h # row). R x) v0 = post (\<Union>x\<in>set row. R x) (post (R h) v0)"
    using un [of "R h" "\<Union>x\<in>set row. R x" v0] by simp
  have run': "for_next_user_edge_group recurse row {} (post (R h) v0) = Some r"
    using Cons.prems(2) r1 k1 by simp
  have "r = Inr (post (\<Union>h\<in>set row. R h) (post (R h) v0))"
    using Cons.IH [OF _ run'] Cons.prems(1) by simp
  then show ?case using split by simp
qed

lemma traverse_from_user_returns:
  assumes acyc: "acyclic (group_edges s)"
  shows "\<exists>n. \<forall>m\<ge>n. \<forall>v. traverse_user_and_group_graph_from_user m s start_user act v \<noteq> None"
proof (cases "fmlookup (user_to_group_graph_edges s) start_user")
  case None
  then show ?thesis by (simp add: traverse_user_and_group_graph_from_user_def)
next
  case (Some row)
  have "\<forall>h\<in>set row. \<exists>n. \<forall>m\<ge>n. \<forall>vis v.
          traverse_user_and_group_graph_from_group_recurse m s h vis act v \<noteq> None"
    using recurse_returns [OF acyc] by blast
  then obtain f where f: "\<forall>h\<in>set row. \<forall>m\<ge>f h. \<forall>vis v.
          traverse_user_and_group_graph_from_group_recurse m s h vis act v \<noteq> None"
    by metis
  let ?N = "sum_list (map f row)"
  have le: "\<And>h. h \<in> set row \<Longrightarrow> f h \<le> ?N"
    by (simp add: member_le_sum_list)
  have "\<forall>m\<ge>?N. \<forall>v. traverse_user_and_group_graph_from_user m s start_user act v \<noteq> None"
  proof (intro allI impI)
    fix m v assume m: "?N \<le> m"
    have "\<And>h vis w. h \<in> set row \<Longrightarrow>
            traverse_user_and_group_graph_from_group_recurse m s h vis act w \<noteq> None"
      using f le m by (meson le_trans)
    then have "\<And>w. for_next_user_edge_group
             (\<lambda>g vis w. traverse_user_and_group_graph_from_group_recurse m s g vis act w)
             row {} w \<noteq> None"
      by (rule for_next_user_edge_group_returns)
    then show "traverse_user_and_group_graph_from_user m s start_user act v \<noteq> None"
      using Some by (simp add: traverse_user_and_group_graph_from_user_def)
  qed
  then show ?thesis by blast
qed

lemma traverse_from_user_post:
  assumes act: "\<And>g v. \<exists>k. act g v = Inr (k, post {g} v) \<and>
                        (\<not> k \<longrightarrow> (\<forall>S. post S (post {g} v) = post {g} v))"
      and un: "\<And>A B v. post (A \<union> B) v = post B (post A v)"
      and emp: "\<And>v. post {} v = v"
      and user: "start_user \<in> users s"
      and run: "traverse_user_and_group_graph_from_user n s start_user act v = Some r"
  shows "r = Inr (post (user_reach s start_user) v)"
proof (cases "fmlookup (user_to_group_graph_edges s) start_user")
  case None
  then show ?thesis
    using run user by (simp add: traverse_user_and_group_graph_from_user_def user_reach_def emp)
next
  case (Some row)
  have run': "for_next_user_edge_group
                (\<lambda>g vis w. traverse_user_and_group_graph_from_group_recurse n s g vis act w)
                row {} v = Some r"
    using run user Some by (simp add: traverse_user_and_group_graph_from_user_def)
  have "r = Inr (post (\<Union>h\<in>set row. reach s h) v)"
  proof (rule for_next_user_edge_group_post [OF _ un emp run'])
    fix h w r'
    assume "traverse_user_and_group_graph_from_group_recurse n s h {} act w = Some r'"
    from recurse_post [of act post, OF act un emp this]
    show "\<exists>k. r' = Inr (k, post (reach s h) w)" by blast
  qed
  then show ?thesis using Some by (simp add: user_reach_def)
qed

subsection \<open>The example state\<close>

text \<open>The example state is what the public operations build from the empty manager.\<close>

lemma example_manager_built:
  "add_group_to_group_mapping 1 20 21
     (snd (add_group_to_entity_mapping 21 ''T'' ''F''
       (snd (add_user_to_entity_mapping 10 ''T'' ''E''
         (snd (add_entity ''T'' ''F''
           (snd (add_entity ''T'' ''E''
             (snd (add_entity_type ''T''
               (snd (add_group_to_application_component_and_access_level_mapping 21 31 41
                 (snd (add_user_to_application_component_and_access_level_mapping 10 30 40
                   (snd (add_user_to_group_mapping 10 20
                     (snd (add_group 22
                       (snd (add_group 21
                         (snd (add_group 20
                           (snd (add_user 11
                             (snd (add_user 10 init))))))))))))))))))))))))))
   = Some (None, example_manager)"
  by (simp add: add_group_to_group_mapping_def add_user_to_group_mapping_def add_group_def
        add_user_def init_def example_manager_def insert_commute
        CheckForCircularReferenceTraverserAction_invoke_def
        add_group_to_entity_mapping_def add_user_to_entity_mapping_def add_entity_def
        add_entity_type_def add_to_entity_map_def mapped_entities_of_def isspace_def
        is_whitespace_def Let_def
        add_group_to_application_component_and_access_level_mapping_def
        add_user_to_application_component_and_access_level_mapping_def)

lemma group_edges_example: "group_edges example_manager = {(20, 21)}"
  by (auto simp: group_edges_iff example_manager_def split: if_splits)

lemma acyclic_example: "acyclic (group_edges example_manager)"
proof -
  have "acyclic ({} :: (nat \<times> nat) set)" by (simp add: acyclic_def)
  then show ?thesis by (simp add: group_edges_example)
qed

lemma global_invariants_example: "global_invariants example_manager"
  unfolding global_invariants_def
proof (intro conjI)
  show "referential_integrity example_manager"
    by (auto simp: referential_integrity_def mapping_integrity_def edge_integrity_def
               entity_row_valid_def example_manager_def
             split: if_splits)
  show "no_duplicate_edges example_manager"
    by (auto simp: no_duplicate_edges_def example_manager_def split: if_splits)
  show "\<forall>g. (g, g) \<notin> group_edges example_manager"
    by (simp add: group_edges_example)
  show "acyclic (group_edges example_manager)"
    by (rule acyclic_example)
qed

lemma user_reach_example: "user_reach example_manager 10 = {20, 21}"
proof -
  have "(group_edges example_manager)\<^sup>* `` {20} = {20, 21}"
    unfolding group_edges_example
    by (auto elim: rtranclE)
  then show ?thesis
    by (simp add: user_reach_def reach_def example_manager_def)
qed

subsection \<open>Termination\<close>

text \<open>
  C8. For every state whose group to group edges are acyclic, every start user and every
  action, the traversal from the user returns when given enough fuel, and so does the
  recursive helper from every group and with every visited set. The recursion hands the
  visited set on unchanged, so nothing is ever added to it: termination rests on the
  acyclic graph alone. An action that raises ends the traversal with its error, which is
  a return too.
\<close>

theorem traversal_terminates_on_acyclic_graph:
  assumes "acyclic (group_edges s)"
  shows "(\<exists>n. \<forall>m\<ge>n. \<forall>v.
            traverse_user_and_group_graph_from_user m s start_user group_action v \<noteq> None) \<and>
         (\<exists>n. \<forall>m\<ge>n. \<forall>visited_groups v.
            traverse_user_and_group_graph_from_group_recurse m s next_group visited_groups
              group_action v \<noteq> None)"
  using traverse_from_user_returns [OF assms] recurse_returns [OF assms] by blast

theorem traversal_terminates_on_acyclic_graph_witness:
  "acyclic (group_edges example_manager) \<and>
   (\<exists>n. traverse_user_and_group_graph_from_user n example_manager 10 keep_going () \<noteq> None) \<and>
   (\<exists>n. traverse_user_and_group_graph_from_group_recurse n example_manager 20 {21}
           keep_going () \<noteq> None)"
  using traversal_terminates_on_acyclic_graph [OF acyclic_example, of 10 keep_going 20]
    acyclic_example
  by blast

subsection \<open>Access to an application component\<close>

lemma hit_post_un: "hit_post hit (A \<union> B) v = hit_post hit B (hit_post hit A v)"
  by (auto simp: hit_post_def)

lemma hit_post_empty: "hit_post hit {} v = v"
  by (simp add: hit_post_def)

lemma CheckForAccess_post:
  "\<exists>k. CheckForAccessTraverserAction_invoke c a gcm g v = Inr (k, hit_post (component_hit c a gcm) {g} v) \<and>
       (\<not> k \<longrightarrow> (\<forall>S. hit_post (component_hit c a gcm) S (hit_post (component_hit c a gcm) {g} v)
                      = hit_post (component_hit c a gcm) {g} v))"
  by (auto simp: CheckForAccessTraverserAction_invoke_def hit_post_def component_hit_def
           split: option.splits)

lemma has_access_to_application_component_result:
  assumes "has_access_to_application_component n s user c a = Some r"
  shows "r = Inr (user \<in> users s \<and>
                  (component_hit c a (user_to_component_map s) user \<or>
                   (\<exists>g\<in>user_reach s user. component_hit c a (group_to_component_map s) g)))"
proof (cases "user \<in> users s \<and> \<not> component_hit c a (user_to_component_map s) user")
  case False
  then show ?thesis using assms
    by (auto simp: has_access_to_application_component_def component_hit_def split: if_splits)
next
  case True
  then obtain r' where r': "traverse_user_and_group_graph_from_user n s user
                (CheckForAccessTraverserAction_invoke c a (group_to_component_map s)) False = Some r'"
    using assms
    by (auto simp: has_access_to_application_component_def component_hit_def split: option.splits)
  have "r' = Inr (hit_post (component_hit c a (group_to_component_map s)) (user_reach s user) False)"
    using True
    by (intro traverse_from_user_post [OF CheckForAccess_post hit_post_un hit_post_empty _ r']) simp
  then show ?thesis using assms True r'
    by (auto simp: has_access_to_application_component_def component_hit_def hit_post_def)
qed

lemma has_access_to_application_component_returns:
  assumes "acyclic (group_edges s)"
  shows "\<exists>n. \<forall>m\<ge>n. has_access_to_application_component m s user c a \<noteq> None"
proof -
  from traverse_from_user_returns [OF assms] obtain n where
    "\<forall>m\<ge>n. \<forall>v. traverse_user_and_group_graph_from_user m s user
        (CheckForAccessTraverserAction_invoke c a (group_to_component_map s)) v \<noteq> None"
    by blast
  then have "has_access_to_application_component m s user c a \<noteq> None" if "m \<ge> n" for m
  proof -
    from that \<open>\<forall>m\<ge>n. _\<close> obtain r where
      "traverse_user_and_group_graph_from_user m s user
        (CheckForAccessTraverserAction_invoke c a (group_to_component_map s)) False = Some r"
      by blast
    then show ?thesis
      by (simp add: has_access_to_application_component_def split: sum.splits)
  qed
  then show ?thesis by blast
qed

text \<open>
  C5. For every state that satisfies the global invariants and all \<open>user\<close>, \<open>c\<close>, \<open>a\<close>:
  \<open>has_access_to_application_component\<close> returns (enough fuel gives a result), it never
  raises, the result is \<open>False\<close> when the user is not in \<open>users\<close>, and otherwise it is \<open>True\<close>
  exactly when \<open>(c, a)\<close> is in the user's own row or in the row of a group reachable from
  the user by one user to group edge followed by any number of group to group edges.
\<close>

theorem has_access_to_application_component_correct:
  assumes "global_invariants s"
  shows "(\<exists>n. \<forall>m\<ge>n. has_access_to_application_component m s user c a \<noteq> None) \<and>
         (\<forall>n r. has_access_to_application_component n s user c a = Some r \<longrightarrow>
            r = Inr (user \<in> users s \<and>
                     ((\<exists>row. fmlookup (user_to_component_map s) user = Some row \<and> (c, a) \<in> row) \<or>
                      (\<exists>g\<in>user_reach s user.
                         \<exists>row. fmlookup (group_to_component_map s) g = Some row \<and> (c, a) \<in> row))))"
proof (intro conjI allI impI)
  have "acyclic (group_edges s)" using assms by (simp add: global_invariants_def)
  then show "\<exists>n. \<forall>m\<ge>n. has_access_to_application_component m s user c a \<noteq> None"
    by (rule has_access_to_application_component_returns)
next
  fix n r
  assume "has_access_to_application_component n s user c a = Some r"
  from has_access_to_application_component_result [OF this]
  show "r = Inr (user \<in> users s \<and>
                     ((\<exists>row. fmlookup (user_to_component_map s) user = Some row \<and> (c, a) \<in> row) \<or>
                      (\<exists>g\<in>user_reach s user.
                         \<exists>row. fmlookup (group_to_component_map s) g = Some row \<and> (c, a) \<in> row)))"
    by (auto simp: component_hit_def split: option.splits)
qed

theorem has_access_to_application_component_correct_witness:
  "global_invariants example_manager \<and>
   (\<exists>n. has_access_to_application_component n example_manager 10 31 41 = Some (Inr True)) \<and>
   (\<exists>n. has_access_to_application_component n example_manager 11 31 41 = Some (Inr False)) \<and>
   (\<exists>n. has_access_to_application_component n example_manager 12 31 41 = Some (Inr False))"
proof -
  note inv = global_invariants_example
  have hit: "\<exists>g\<in>user_reach example_manager 10.
               \<exists>row. fmlookup (group_to_component_map example_manager) g = Some row \<and> (31, 41) \<in> row"
  proof -
    have "21 \<in> user_reach example_manager 10" by (simp add: user_reach_example)
    moreover have "fmlookup (group_to_component_map example_manager) 21 = Some {(31, 41)}"
      by (simp add: example_manager_def)
    ultimately show ?thesis by blast
  qed
  have u1: "10 \<in> users example_manager" by (simp add: example_manager_def)
  have r2: "user_reach example_manager 11 = {}"
    by (simp add: user_reach_def example_manager_def)
  have m2: "fmlookup (user_to_component_map example_manager) 11 = None"
    by (simp add: example_manager_def)
  have u7: "12 \<notin> users example_manager" by (simp add: example_manager_def)
  have "\<exists>n. has_access_to_application_component n example_manager 10 31 41 = Some (Inr True)"
  proof -
    note th = has_access_to_application_component_correct [OF inv, of 10 31 41]
    from th obtain n r where
      "has_access_to_application_component n example_manager 10 31 41 = Some r" by blast
    moreover from this th hit u1 have "r = Inr True" by simp
    ultimately show ?thesis by blast
  qed
  moreover
  have "\<exists>n. has_access_to_application_component n example_manager 11 31 41 = Some (Inr False)"
  proof -
    note th = has_access_to_application_component_correct [OF inv, of 11 31 41]
    from th obtain n r where
      "has_access_to_application_component n example_manager 11 31 41 = Some r" by blast
    moreover from this th r2 m2 have "r = Inr False" by simp
    ultimately show ?thesis by blast
  qed
  moreover
  have "\<exists>n. has_access_to_application_component n example_manager 12 31 41 = Some (Inr False)"
  proof -
    note th = has_access_to_application_component_correct [OF inv, of 12 31 41]
    from th obtain n r where
      "has_access_to_application_component n example_manager 12 31 41 = Some r" by blast
    moreover from this th u7 have "r = Inr False" by simp
    ultimately show ?thesis by blast
  qed
  ultimately show ?thesis using inv by blast
qed

subsection \<open>The circular reference check\<close>

lemma for_next_edge_group_circular:
  assumes IH: "\<And>h v r. h \<in> set row \<Longrightarrow> recurse h {} v = Some r \<Longrightarrow>
                 r = (if P h then Inl CircularReference else Inr (True, v))"
      and run: "for_next_edge_group recurse row {} True v0 = Some r"
  shows "r = (if \<exists>h\<in>set row. P h then Inl CircularReference else Inr (True, v0))"
  using IH run
proof (induction row)
  case Nil
  then show ?case by simp
next
  case (Cons h row)
  from Cons.prems(2) obtain r1 where r1: "recurse h {} v0 = Some r1"
    by (auto split: option.splits)
  from Cons.prems(1) [of h v0 r1] r1
  have r1': "r1 = (if P h then Inl CircularReference else Inr (True, v0))" by simp
  show ?case
  proof (cases "P h")
    case True
    then show ?thesis using Cons.prems(2) r1 r1' by simp
  next
    case False
    then have "for_next_edge_group recurse row {} True v0 = Some r"
      using Cons.prems(2) r1 r1' by simp
    then have "r = (if \<exists>h\<in>set row. P h then Inl CircularReference else Inr (True, v0))"
      using Cons.IH Cons.prems(1) by simp
    then show ?thesis using False by simp
  qed
qed

lemma recurse_circular:
  "traverse_user_and_group_graph_from_group_recurse n s g {}
      (CheckForCircularReferenceTraverserAction_invoke check_group) v = Some r \<Longrightarrow>
   r = (if check_group \<in> reach s g then Inl CircularReference else Inr (True, v))"
proof (induction n arbitrary: g v r)
  case 0
  then show ?case by simp
next
  case (Suc n)
  show ?case
  proof (cases "g = check_group")
    case True
    then have "check_group \<in> reach s g" by (simp add: reach_def)
    moreover
    have "CheckForCircularReferenceTraverserAction_invoke check_group g v = Inl CircularReference"
      using True by (simp add: CheckForCircularReferenceTraverserAction_invoke_def)
    ultimately show ?thesis using Suc.prems by simp
  next
    case False
    show ?thesis
    proof (cases "fmlookup (group_to_group_graph_edges s) g")
      case None
      moreover
      have "CheckForCircularReferenceTraverserAction_invoke check_group g v = Inr (True, v)"
        using False by (simp add: CheckForCircularReferenceTraverserAction_invoke_def)
      ultimately show ?thesis using Suc.prems False by (simp add: reach_None)
    next
      case (Some row)
      have run: "for_next_edge_group
                 (\<lambda>g vis w. traverse_user_and_group_graph_from_group_recurse n s g vis
                    (CheckForCircularReferenceTraverserAction_invoke check_group) w)
                 row {} True v = Some r"
      proof -
        have "CheckForCircularReferenceTraverserAction_invoke check_group g v = Inr (True, v)"
          using False by (simp add: CheckForCircularReferenceTraverserAction_invoke_def)
        then show ?thesis using Suc.prems Some by simp
      qed
      have "r = (if \<exists>h\<in>set row. check_group \<in> reach s h then Inl CircularReference
                 else Inr (True, v))"
        by (rule for_next_edge_group_circular [OF _ run]) (rule Suc.IH)
      then show ?thesis using False by (auto simp: reach_Some [OF Some])
    qed
  qed
qed

lemma group_edges_add:
  assumes "fmlookup (group_to_group_graph_edges s) from_group = r"
  shows "group_edges (s\<lparr>group_to_group_graph_edges :=
            fmupd from_group ((case r of Some row \<Rightarrow> row | None \<Rightarrow> []) @ [to_group])
              (group_to_group_graph_edges s)\<rparr>)
         = insert (from_group, to_group) (group_edges s)"
  using assms by (auto simp: group_edges_iff split: if_splits option.splits)

lemma reach_example_20: "reach example_manager 20 = {20, 21}"
proof -
  have "(group_edges example_manager)\<^sup>* `` {20} = {20, 21}"
    unfolding group_edges_example
    by (auto elim: rtranclE)
  then show ?thesis by (simp add: reach_def)
qed

lemma reach_example_22: "reach example_manager 22 = {22}"
  by (rule reach_None) (simp add: example_manager_def)

text \<open>
  C3. In a state whose group to group edges are acyclic, with both groups present, different,
  and the edge absent: \<open>add_group_to_group_mapping\<close> returns (enough fuel gives an outcome);
  it fails with the circular reference error exactly when the search from \<open>to_group\<close> over
  the group to group edges reaches \<open>from_group\<close>, and then the state is unchanged; otherwise
  it succeeds, the edge relation gains exactly the new edge, and it is acyclic again.
\<close>

theorem add_group_to_group_mapping_checks_for_cycle:
  assumes acyc: "acyclic (group_edges s)"
      and gf: "from_group \<in> groups s" and gt: "to_group \<in> groups s"
      and neq: "from_group \<noteq> to_group"
      and absent: "(from_group, to_group) \<notin> group_edges s"
  shows "(\<exists>n. \<forall>m\<ge>n. add_group_to_group_mapping m from_group to_group s \<noteq> None) \<and>
         (\<forall>n err s'. add_group_to_group_mapping n from_group to_group s = Some (err, s') \<longrightarrow>
            (if from_group \<in> reach s to_group
             then err = Some CircularReference \<and> s' = s
             else err = None \<and>
                  group_edges s' = insert (from_group, to_group) (group_edges s) \<and>
                  acyclic (group_edges s')))"
proof (intro conjI allI impI)
  have no: "\<not> (case fmlookup (group_to_group_graph_edges s) from_group of
                 Some row \<Rightarrow> to_group \<in> set row | None \<Rightarrow> False)"
    using absent by (auto simp: group_edges_iff split: option.splits)
  from recurse_returns [OF acyc] obtain n where
    n: "\<forall>m\<ge>n. \<forall>vis v. traverse_user_and_group_graph_from_group_recurse m s to_group vis
          (CheckForCircularReferenceTraverserAction_invoke from_group) v \<noteq> None"
    by blast
  have "add_group_to_group_mapping m from_group to_group s \<noteq> None" if "m \<ge> n" for m
  proof -
    from that n obtain r where
      "traverse_user_and_group_graph_from_group_recurse m s to_group {}
          (CheckForCircularReferenceTraverserAction_invoke from_group) () = Some r"
      by blast
    then show ?thesis
      by (simp add: add_group_to_group_mapping_def split: sum.splits option.splits)
  qed
  then show "\<exists>n. \<forall>m\<ge>n. add_group_to_group_mapping m from_group to_group s \<noteq> None"
    by blast
next
  fix n err s'
  assume run: "add_group_to_group_mapping n from_group to_group s = Some (err, s')"
  have no: "\<not> (case fmlookup (group_to_group_graph_edges s) from_group of
                 Some row \<Rightarrow> to_group \<in> set row | None \<Rightarrow> False)"
    using absent by (auto simp: group_edges_iff split: option.splits)
  from run gf gt neq no obtain r where
    r: "traverse_user_and_group_graph_from_group_recurse n s to_group {}
          (CheckForCircularReferenceTraverserAction_invoke from_group) () = Some r"
    by (auto simp: add_group_to_group_mapping_def split: option.splits)
  from recurse_circular [OF r]
  have r': "r = (if from_group \<in> reach s to_group then Inl CircularReference else Inr (True, ()))" .
  show "if from_group \<in> reach s to_group
        then err = Some CircularReference \<and> s' = s
        else err = None \<and>
             group_edges s' = insert (from_group, to_group) (group_edges s) \<and>
             acyclic (group_edges s')"
  proof (cases "from_group \<in> reach s to_group")
    case True
    then show ?thesis using run gf gt neq no r r'
      by (simp add: add_group_to_group_mapping_def)
  next
    case False
    then have s': "s' = s\<lparr>group_to_group_graph_edges :=
            fmupd from_group
              ((case fmlookup (group_to_group_graph_edges s) from_group of
                  Some row \<Rightarrow> row | None \<Rightarrow> []) @ [to_group])
              (group_to_group_graph_edges s)\<rparr>" and err: "err = None"
      using run gf gt neq no r r'
      by (auto simp: add_group_to_group_mapping_def split: option.splits)
    have ge: "group_edges s' = insert (from_group, to_group) (group_edges s)"
      unfolding s' by (rule group_edges_add) simp
    have "(to_group, from_group) \<notin> (group_edges s)\<^sup>*"
      using False by (simp add: reach_def)
    then have "acyclic (group_edges s')"
      using acyc ge by simp
    then show ?thesis using False err ge by simp
  qed
qed

theorem add_group_to_group_mapping_checks_for_cycle_witness:
  "acyclic (group_edges example_manager) \<and>
   (\<exists>n. add_group_to_group_mapping n 21 20 example_manager
           = Some (Some CircularReference, example_manager)) \<and>
   (\<exists>n s'. add_group_to_group_mapping n 20 22 example_manager = Some (None, s') \<and>
            group_edges s' = {(20, 22), (20, 21)} \<and> acyclic (group_edges s'))"
proof -
  have g: "20 \<in> groups example_manager" "21 \<in> groups example_manager"
    "22 \<in> groups example_manager"
    by (simp_all add: example_manager_def)
  have e1: "(21, 20) \<notin> group_edges example_manager"
    and e2: "(20, 22) \<notin> group_edges example_manager"
    by (simp_all add: group_edges_example)
  have n1: "(21::nat) \<noteq> 20" and n2: "(20::nat) \<noteq> 22" by simp_all
  note t1 = add_group_to_group_mapping_checks_for_cycle
              [OF acyclic_example g(2) g(1) n1 e1]
  note t2 = add_group_to_group_mapping_checks_for_cycle
              [OF acyclic_example g(1) g(3) n2 e2]
  have "\<exists>n. add_group_to_group_mapping n 21 20 example_manager
           = Some (Some CircularReference, example_manager)"
  proof -
    from t1 obtain n where
      "add_group_to_group_mapping n 21 20 example_manager \<noteq> None" by blast
    then obtain err s' where
      r: "add_group_to_group_mapping n 21 20 example_manager = Some (err, s')" by auto
    with t1 have "err = Some CircularReference \<and> s' = example_manager"
      by (simp add: reach_example_20)
    with r show ?thesis by blast
  qed
  moreover
  have "\<exists>n s'. add_group_to_group_mapping n 20 22 example_manager = Some (None, s') \<and>
            group_edges s' = {(20, 22), (20, 21)} \<and> acyclic (group_edges s')"
  proof -
    from t2 obtain n where
      "add_group_to_group_mapping n 20 22 example_manager \<noteq> None" by blast
    then obtain err s' where
      r: "add_group_to_group_mapping n 20 22 example_manager = Some (err, s')" by auto
    with t2 have "if 20 \<in> reach example_manager 22
        then err = Some CircularReference \<and> s' = example_manager
        else err = None \<and>
             group_edges s' = insert (20, 22) (group_edges example_manager) \<and>
             acyclic (group_edges s')"
      by blast
    moreover have "20 \<notin> reach example_manager 22" by (simp add: reach_example_22)
    ultimately have "err = None \<and>
             group_edges s' = insert (20, 22) (group_edges example_manager) \<and>
             acyclic (group_edges s')"
      by meson
    then have "err = None" and "acyclic (group_edges s')"
      and "group_edges s' = insert (20, 22) (group_edges example_manager)"
      by blast+
    moreover from this(3) have "group_edges s' = {(20, 22), (20, 21)}"
      by (simp only: group_edges_example)
    ultimately show ?thesis using r by blast
  qed
  ultimately show ?thesis using acyclic_example by blast
qed

subsection \<open>Access to entities\<close>

lemma CheckForEntityMapping_post:
  "\<exists>k. CheckForEntityMappingTraverserAction_invoke t e gem g v
          = Inr (k, hit_post (\<lambda>g. e \<in> mapped_set gem g t) {g} v) \<and>
       (\<not> k \<longrightarrow> (\<forall>S. hit_post (\<lambda>g. e \<in> mapped_set gem g t) S
                        (hit_post (\<lambda>g. e \<in> mapped_set gem g t) {g} v)
                      = hit_post (\<lambda>g. e \<in> mapped_set gem g t) {g} v))"
  by (auto simp: CheckForEntityMappingTraverserAction_invoke_def hit_post_def mapped_set_def
                 mapped_entities_of_def
           split: option.splits)

lemma AddMappedEntities_post:
  "\<exists>k. AddMappedEntitiesToSetTraverserAction_invoke t gem g v
          = Inr (k, collect_post t gem {g} v) \<and>
       (\<not> k \<longrightarrow> (\<forall>S. collect_post t gem S (collect_post t gem {g} v) = collect_post t gem {g} v))"
  by (auto simp: AddMappedEntitiesToSetTraverserAction_invoke_def collect_post_def mapped_set_def
                 mapped_entities_of_def
           split: option.splits)

lemma collect_post_un: "collect_post t gem (A \<union> B) v = collect_post t gem B (collect_post t gem A v)"
  by (auto simp: collect_post_def)

lemma collect_post_empty: "collect_post t gem {} v = v"
  by (simp add: collect_post_def)

lemma has_access_to_entity_result:
  assumes run: "has_access_to_entity n s user t e = Some r"
      and ent: "contains_entity s t e"
  shows "r = Inr (user \<in> users s \<and>
                  (e \<in> mapped_set (user_to_entity_map s) user t \<or>
                   (\<exists>g\<in>user_reach s user. e \<in> mapped_set (group_to_entity_map s) g t)))"
proof -
  from ent obtain all_entities where
    all: "fmlookup (entities s) t = Some all_entities" "e \<in> all_entities"
    by (auto simp: contains_entity_def split: option.splits)
  show ?thesis
  proof (cases "user \<in> users s \<and> e \<notin> mapped_set (user_to_entity_map s) user t")
    case False
    then show ?thesis using run all
      by (auto simp: has_access_to_entity_def mapped_set_def split: if_splits option.splits)
  next
    case True
    then obtain r' where r': "traverse_user_and_group_graph_from_user n s user
          (CheckForEntityMappingTraverserAction_invoke t e (group_to_entity_map s)) False = Some r'"
      using run all
      by (auto simp: has_access_to_entity_def mapped_set_def split: option.splits if_splits)
    have "r' = Inr (hit_post (\<lambda>g. e \<in> mapped_set (group_to_entity_map s) g t)
                      (user_reach s user) False)"
      using True
      by (intro traverse_from_user_post
                  [OF CheckForEntityMapping_post hit_post_un hit_post_empty _ r']) simp
    then show ?thesis using run all True r'
      by (auto simp: has_access_to_entity_def mapped_set_def hit_post_def
               split: option.splits if_splits)
  qed
qed

lemma has_access_to_entity_returns:
  assumes "acyclic (group_edges s)"
  shows "\<exists>n. \<forall>m\<ge>n. has_access_to_entity m s user t e \<noteq> None"
proof -
  from traverse_from_user_returns [OF assms] obtain n where
    n: "\<forall>m\<ge>n. \<forall>v. traverse_user_and_group_graph_from_user m s user
        (CheckForEntityMappingTraverserAction_invoke t e (group_to_entity_map s)) v \<noteq> None"
    by blast
  have "has_access_to_entity m s user t e \<noteq> None" if "m \<ge> n" for m
  proof -
    from that n obtain r where
      "traverse_user_and_group_graph_from_user m s user
        (CheckForEntityMappingTraverserAction_invoke t e (group_to_entity_map s)) False = Some r"
      by blast
    then show ?thesis
      by (simp add: has_access_to_entity_def split: sum.splits option.splits)
  qed
  then show ?thesis by blast
qed

lemma get_accessible_entities_result:
  assumes run: "get_accessible_entities n s user t = Some r"
      and user: "user \<in> users s" and ty: "t \<in> fmdom' (entities s)"
  shows "r = Inr (mapped_set (user_to_entity_map s) user t \<union>
                  (\<Union>g\<in>user_reach s user. mapped_set (group_to_entity_map s) g t))"
proof -
  have um: "get_user_to_entity_mappings_for_user_and_entity_type s user t
              = Inr (mapped_set (user_to_entity_map s) user t)"
    using user ty
    by (simp add: get_user_to_entity_mappings_for_user_and_entity_type_def mapped_set_def
             split: option.splits)
  from run user ty um obtain r' where r': "traverse_user_and_group_graph_from_user n s user
          (AddMappedEntitiesToSetTraverserAction_invoke t (group_to_entity_map s)) {} = Some r'"
    by (auto simp: get_accessible_entities_def split: option.splits)
  have "r' = Inr (collect_post t (group_to_entity_map s) (user_reach s user) {})"
    by (rule traverse_from_user_post
                  [OF AddMappedEntities_post collect_post_un collect_post_empty user r'])
  then show ?thesis using run user ty um r'
    by (simp add: get_accessible_entities_def collect_post_def)
qed

lemma get_accessible_entities_returns:
  assumes "acyclic (group_edges s)"
  shows "\<exists>n. \<forall>m\<ge>n. get_accessible_entities m s user t \<noteq> None"
proof -
  from traverse_from_user_returns [OF assms] obtain n where
    n: "\<forall>m\<ge>n. \<forall>v. traverse_user_and_group_graph_from_user m s user
        (AddMappedEntitiesToSetTraverserAction_invoke t (group_to_entity_map s)) v \<noteq> None"
    by blast
  have "get_accessible_entities m s user t \<noteq> None" if "m \<ge> n" for m
  proof -
    from that n obtain r where
      "traverse_user_and_group_graph_from_user m s user
        (AddMappedEntitiesToSetTraverserAction_invoke t (group_to_entity_map s)) {} = Some r"
      by blast
    then show ?thesis
      by (simp add: get_accessible_entities_def split: sum.splits option.splits)
  qed
  then show ?thesis by blast
qed

lemma mapped_set_declared:
  assumes "\<And>row. fmlookup m k = Some row \<Longrightarrow> entity_row_valid s row"
      and "e \<in> mapped_set m k t"
  shows "contains_entity s t e"
proof -
  from assms(2) obtain row es where
    row: "fmlookup m k = Some row" "fmlookup row t = Some es" "e \<in> es"
    by (auto simp: mapped_set_def mapped_entities_of_def split: option.splits)
  from assms(1) [OF row(1)] row(2) obtain all_entities where
    "fmlookup (entities s) t = Some all_entities" "es \<subseteq> all_entities"
    unfolding entity_row_valid_def by blast
  then show ?thesis using row(3) by (auto simp: contains_entity_def)
qed

text \<open>
  C7. For every state that satisfies the global invariants, every user in \<open>users\<close> and every
  declared entity type: \<open>get_accessible_entities\<close> returns (enough fuel gives a result),
  and the set it returns is the set of the entities \<open>e\<close> of that type for which
  \<open>has_access_to_entity\<close> returns \<open>True\<close>.
\<close>

theorem get_accessible_entities_agrees_with_has_access_to_entity:
  assumes inv: "global_invariants s"
      and user: "user \<in> users s" and ty: "t \<in> fmdom' (entities s)"
  shows "(\<exists>n. \<forall>m\<ge>n. get_accessible_entities m s user t \<noteq> None) \<and>
         (\<forall>n r. get_accessible_entities n s user t = Some r \<longrightarrow>
            r = Inr {e. contains_entity s t e \<and>
                        (\<exists>m. has_access_to_entity m s user t e = Some (Inr True))})"
proof (intro conjI allI impI)
  have acyc: "acyclic (group_edges s)" using inv by (simp add: global_invariants_def)
  then show "\<exists>n. \<forall>m\<ge>n. get_accessible_entities m s user t \<noteq> None"
    by (rule get_accessible_entities_returns)
  fix n r
  assume run: "get_accessible_entities n s user t = Some r"
  let ?A = "mapped_set (user_to_entity_map s) user t \<union>
            (\<Union>g\<in>user_reach s user. mapped_set (group_to_entity_map s) g t)"
  have r: "r = Inr ?A" by (rule get_accessible_entities_result [OF run user ty])
  have ri: "referential_integrity s" using inv by (simp add: global_invariants_def)
  have declared: "contains_entity s t e" if "e \<in> ?A" for e
  proof -
    have "\<And>row. fmlookup (user_to_entity_map s) user = Some row \<Longrightarrow> entity_row_valid s row"
      using ri by (simp add: referential_integrity_def mapping_integrity_def)
    moreover
    have "\<And>g row. fmlookup (group_to_entity_map s) g = Some row \<Longrightarrow> entity_row_valid s row"
      using ri by (simp add: referential_integrity_def mapping_integrity_def)
    ultimately show ?thesis using that by (auto intro: mapped_set_declared)
  qed
  have "?A = {e. contains_entity s t e \<and>
                 (\<exists>m. has_access_to_entity m s user t e = Some (Inr True))}"
  proof (intro set_eqI iffI)
    fix e assume e: "e \<in> ?A"
    then have ce: "contains_entity s t e" by (rule declared)
    from has_access_to_entity_returns [OF acyc, of user t e] obtain m r' where
      m: "has_access_to_entity m s user t e = Some r'" by blast
    from has_access_to_entity_result [OF m ce] e user
    have "r' = Inr True" by auto
    then show "e \<in> {e. contains_entity s t e \<and>
                 (\<exists>m. has_access_to_entity m s user t e = Some (Inr True))}"
      using ce m by blast
  next
    fix e assume "e \<in> {e. contains_entity s t e \<and>
                 (\<exists>m. has_access_to_entity m s user t e = Some (Inr True))}"
    then obtain m where ce: "contains_entity s t e"
      and m: "has_access_to_entity m s user t e = Some (Inr True)" by blast
    from has_access_to_entity_result [OF m ce] show "e \<in> ?A" by auto
  qed
  then show "r = Inr {e. contains_entity s t e \<and>
                        (\<exists>m. has_access_to_entity m s user t e = Some (Inr True))}"
    using r by simp
qed

theorem get_accessible_entities_agrees_with_has_access_to_entity_witness:
  "global_invariants example_manager \<and> 10 \<in> users example_manager \<and>
   ''T'' \<in> fmdom' (entities example_manager) \<and>
   (\<exists>n. get_accessible_entities n example_manager 10 ''T'' = Some (Inr {''E'', ''F''})) \<and>
   {e. contains_entity example_manager ''T'' e \<and>
       (\<exists>m. has_access_to_entity m example_manager 10 ''T'' e = Some (Inr True))}
     = {''E'', ''F''}"
proof -
  have u: "10 \<in> users example_manager" and t: "''T'' \<in> fmdom' (entities example_manager)"
    by (simp_all add: example_manager_def)
  note th = get_accessible_entities_agrees_with_has_access_to_entity
              [OF global_invariants_example u t]
  from th obtain n r where
    r: "get_accessible_entities n example_manager 10 ''T'' = Some r" by blast
  have m1: "mapped_set (user_to_entity_map example_manager) 10 ''T'' = {''E''}"
    by (simp add: mapped_set_def mapped_entities_of_def example_manager_def)
  have m2: "mapped_set (group_to_entity_map example_manager) 20 ''T'' = {}"
    by (simp add: mapped_set_def mapped_entities_of_def example_manager_def)
  have m3: "mapped_set (group_to_entity_map example_manager) 21 ''T'' = {''F''}"
    by (simp add: mapped_set_def mapped_entities_of_def example_manager_def)
  from get_accessible_entities_result [OF r u t]
  have v: "r = Inr {''E'', ''F''}"
    by (simp add: user_reach_example m1 m2 m3 insert_commute)
  from th r have "r = Inr {e. contains_entity example_manager ''T'' e \<and>
       (\<exists>m. has_access_to_entity m example_manager 10 ''T'' e = Some (Inr True))}"
    by blast
  with v r show ?thesis using global_invariants_example u t by auto
qed

subsection \<open>Visits per group\<close>

text \<open>The state is what the public operations build from the empty manager.\<close>

lemma converging_manager_built:
  "add_group_to_group_mapping 1 20 21
     (snd (add_user_to_group_mapping 10 21
       (snd (add_user_to_group_mapping 10 20
         (snd (add_group 21 (snd (add_group 20 (snd (add_user 10 init))))))))))
   = Some (None, converging_manager)"
  by (simp add: add_group_to_group_mapping_def add_user_to_group_mapping_def add_group_def
        add_user_def init_def converging_manager_def insert_commute
        CheckForCircularReferenceTraverserAction_invoke_def)

text \<open>
  C1 fails on the code. The claim: on an acyclic graph one traversal invokes the action at
  most once per group. \<open>converging_manager\<close> is acyclic, and the traversal from user 10
  with the logging action invokes it on group 21 twice: once as the neighbour of group 20 and
  once as the second group of the user. The same happens when the user's row is iterated in
  the other order. \<open>visited_groups\<close> is tested but nothing is ever added to it.
\<close>

theorem traversal_invokes_action_twice_on_group:
  "acyclic (group_edges converging_manager) \<and>
   traverse_user_and_group_graph_from_user 2 converging_manager 10 (logged keep_going) ([], ())
     = Some (Inr ([20, 21, 21], ())) \<and>
   traverse_user_and_group_graph_from_user 2
     (converging_manager\<lparr>user_to_group_graph_edges := fmupd 10 [21, 20] fmempty\<rparr>)
     10 (logged keep_going) ([], ())
     = Some (Inr ([21, 20, 21], ()))"
proof -
  have "group_edges converging_manager = {(20, 21)}"
    by (auto simp: group_edges_iff converging_manager_def init_def split: if_splits)
  moreover have "acyclic ({} :: (nat \<times> nat) set)" by (simp add: acyclic_def)
  ultimately have "acyclic (group_edges converging_manager)" by simp
  moreover
  have "traverse_user_and_group_graph_from_user (Suc (Suc 0)) converging_manager 10
          (logged keep_going) ([], ()) = Some (Inr ([20, 21, 21], ()))"
    by (simp add: traverse_user_and_group_graph_from_user_def converging_manager_def init_def
          logged_def keep_going_def)
  moreover
  have "traverse_user_and_group_graph_from_user (Suc (Suc 0))
          (converging_manager\<lparr>user_to_group_graph_edges := fmupd 10 [21, 20] fmempty\<rparr>)
          10 (logged keep_going) ([], ()) = Some (Inr ([21, 20, 21], ()))"
    by (simp add: traverse_user_and_group_graph_from_user_def converging_manager_def init_def
          logged_def keep_going_def)
  ultimately show ?thesis by (simp add: numeral_2_eq_2)
qed

subsection \<open>Removing a user or a group\<close>

lemma remove_user_result:
  assumes "user \<in> users s"
  shows "remove_user user s =
           (None, s\<lparr>user_to_component_map := fmdrop user (user_to_component_map s),
                     user_to_entity_map := fmdrop user (user_to_entity_map s),
                     users := users s - {user}\<rparr>)"
  using assms by (simp add: remove_user_def fmdrop_idle')

lemma remove_user_not_found:
  "user \<notin> users s \<Longrightarrow> remove_user user s = (Some (DoesNotExist User ''user''), s)"
  by (simp add: remove_user_def)

lemma remove_group_result:
  assumes "grp \<in> groups s"
  shows "remove_group grp s =
           (None, s\<lparr>group_to_component_map := fmdrop grp (group_to_component_map s),
                     group_to_entity_map := fmdrop grp (group_to_entity_map s),
                     groups := groups s - {grp}\<rparr>)"
  using assms by (simp add: remove_group_def fmdrop_idle')

text \<open>
  C2 fails on the code. The claim: after \<open>remove_user\<close> no store holds the user, the user to
  group edges among them. \<open>remove_user\<close> drops the user's component and entity mappings and
  the user, and leaves \<open>user_to_group_graph_edges\<close> as it was: after removing user 10 of the
  example state the row of user 10 is still there, and when user 10 is added again the user
  is a member of group 20 without any mapping having been added.
\<close>

theorem remove_user_keeps_group_edges:
  "fst (remove_user 10 example_manager) = None \<and>
   10 \<notin> users (snd (remove_user 10 example_manager)) \<and>
   fmlookup (user_to_group_graph_edges (snd (remove_user 10 example_manager))) 10 = Some [20] \<and>
   get_user_to_group_mappings
     (snd (add_user 10 (snd (remove_user 10 example_manager)))) 10 = Inr [20]"
  by (simp add: remove_user_def add_user_def get_user_to_group_mappings_def example_manager_def)

text \<open>
  C6 fails on the code. The claim: after \<open>remove_group\<close> the group to group edges have no
  outbound entry for the group. \<open>remove_group\<close> drops the group's component and entity
  mappings and the group, and leaves \<open>group_to_group_graph_edges\<close> as it was: after removing
  group 20 of the example state its row is still there, and when group 20 is added again it
  is mapped to group 21.
\<close>

theorem remove_group_keeps_group_edges:
  "fst (remove_group 20 example_manager) = None \<and>
   20 \<notin> groups (snd (remove_group 20 example_manager)) \<and>
   fmlookup (group_to_group_graph_edges (snd (remove_group 20 example_manager))) 20 = Some [21] \<and>
   get_group_to_group_mappings
     (snd (add_group 20 (snd (remove_group 20 example_manager)))) 20 = Inr [21]"
  by (simp add: remove_group_def add_group_def get_group_to_group_mappings_def example_manager_def)

subsection \<open>Failing operations\<close>

text \<open>
  Every other operation that mutates raises before its first assignment: when it fails the
  state is the one it was given. The two removals of a component mapping fail with the state
  unchanged unless the pair to remove is the only one of its row.
\<close>

lemma failed_vertex_operations_leave_state:
  "add_user user s = (Some err, s') \<Longrightarrow> s' = s"
  "remove_user user s = (Some err, s') \<Longrightarrow> s' = s"
  "add_group grp s = (Some err, s') \<Longrightarrow> s' = s"
  "remove_group grp s = (Some err, s') \<Longrightarrow> s' = s"
  "add_entity_type t s = (Some err, s') \<Longrightarrow> s' = s"
  "remove_entity_type t s = (Some err, s') \<Longrightarrow> s' = s"
  "add_entity t e s = (Some err, s') \<Longrightarrow> s' = s"
  "remove_entity t e s = (Some err, s') \<Longrightarrow> s' = s"
  subgoal by (auto simp: add_user_def split: if_splits)
  subgoal by (auto simp: remove_user_def Let_def split: if_splits)
  subgoal by (auto simp: add_group_def split: if_splits)
  subgoal by (auto simp: remove_group_def Let_def split: if_splits)
  subgoal by (auto simp: add_entity_type_def split: if_splits)
  subgoal by (auto simp: remove_entity_type_def split: if_splits)
  subgoal by (auto simp: add_entity_def split: if_splits option.splits)
  subgoal by (auto simp: remove_entity_def split: if_splits option.splits)
  done

lemma failed_edge_operations_leave_state:
  "add_user_to_group_mapping user grp s = (Some err, s') \<Longrightarrow> s' = s"
  "remove_user_to_group_mapping user grp s = (Some err, s') \<Longrightarrow> s' = s"
  "add_group_to_group_mapping n from_group to_group s = Some (Some err, s') \<Longrightarrow> s' = s"
  "remove_group_to_group_mapping from_group to_group s = (Some err, s') \<Longrightarrow> s' = s"
  subgoal by (auto simp: add_user_to_group_mapping_def split: if_splits option.splits)
  subgoal by (auto simp: remove_user_to_group_mapping_def split: if_splits option.splits)
  subgoal by (auto simp: add_group_to_group_mapping_def split: if_splits option.splits sum.splits)
  subgoal by (auto simp: remove_group_to_group_mapping_def split: if_splits option.splits)
  done

lemma failed_mapping_operations_leave_state:
  "add_user_to_application_component_and_access_level_mapping user c a s = (Some err, s')
     \<Longrightarrow> s' = s"
  "add_group_to_application_component_and_access_level_mapping grp c a s = (Some err, s')
     \<Longrightarrow> s' = s"
  "add_user_to_entity_mapping user t e s = (Some err, s') \<Longrightarrow> s' = s"
  "remove_user_to_entity_mapping user t e s = (Some err, s') \<Longrightarrow> s' = s"
  "add_group_to_entity_mapping grp t e s = (Some err, s') \<Longrightarrow> s' = s"
  "remove_group_to_entity_mapping grp t e s = (Some err, s') \<Longrightarrow> s' = s"
  subgoal by (auto simp: add_user_to_application_component_and_access_level_mapping_def Let_def
                   split: if_splits option.splits)
  subgoal by (auto simp: add_group_to_application_component_and_access_level_mapping_def Let_def
                   split: if_splits option.splits)
  subgoal by (auto simp: add_user_to_entity_mapping_def split: if_splits option.splits)
  subgoal by (auto simp: remove_user_to_entity_mapping_def split: if_splits option.splits)
  subgoal by (auto simp: add_group_to_entity_mapping_def split: if_splits option.splits)
  subgoal by (auto simp: remove_group_to_entity_mapping_def split: if_splits option.splits)
  done

lemma failed_component_removal:
  "remove_user_to_application_component_and_access_level_mapping user c a s = (Some err, s')
     \<Longrightarrow> s' = s \<or> (err = AttributeError \<and> fmlookup (user_to_component_map s) user = Some {(c, a)})"
  "remove_group_to_application_component_and_access_level_mapping grp c a s = (Some err, s')
     \<Longrightarrow> s' = s \<or> (err = AttributeError \<and> fmlookup (group_to_component_map s) grp = Some {(c, a)})"
  subgoal by (auto simp: remove_user_to_application_component_and_access_level_mapping_def Let_def
                   split: if_splits option.splits)
  subgoal by (auto simp: remove_group_to_application_component_and_access_level_mapping_def Let_def
                   split: if_splits option.splits)
  done

text \<open>
  C4 fails on the code. The claim: an operation that raises leaves the state as it was. User
  10 of the example state has one component mapping; removing it raises \<open>AttributeError\<close>
  after the pair has been taken out of the row, so the mappings of user 10 read \<open>{}\<close>
  afterwards and \<open>{(30, 40)}\<close> before. The group variant does the same for group 21.
\<close>

theorem remove_component_mapping_raises_after_mutation:
  "fst (remove_user_to_application_component_and_access_level_mapping 10 30 40 example_manager)
     = Some AttributeError \<and>
   get_user_to_application_component_and_access_level_mappings example_manager 10
     = Inr {(30, 40)} \<and>
   get_user_to_application_component_and_access_level_mappings
     (snd (remove_user_to_application_component_and_access_level_mapping 10 30 40
        example_manager)) 10 = Inr {} \<and>
   fst (remove_group_to_application_component_and_access_level_mapping 21 31 41 example_manager)
     = Some AttributeError \<and>
   get_group_to_application_component_and_access_level_mappings example_manager 21
     = Inr {(31, 41)} \<and>
   get_group_to_application_component_and_access_level_mappings
     (snd (remove_group_to_application_component_and_access_level_mapping 21 31 41
        example_manager)) 21 = Inr {}"
  by (simp add: remove_user_to_application_component_and_access_level_mapping_def
        remove_group_to_application_component_and_access_level_mapping_def
        get_user_to_application_component_and_access_level_mappings_def
        get_group_to_application_component_and_access_level_mappings_def example_manager_def)

subsection \<open>Generator methods\<close>

text \<open>
  C10. For every state, user and group: calling \<open>get_user_to_entity_mappings_for_user\<close> or
  \<open>get_group_to_entity_mappings_for_group\<close> raises nothing and returns a generator; when the
  user (the group) is not in the store, advancing that generator raises the error that the
  user (the group) does not exist. The test is the first statement of the body, so the
  first advance is where it is raised.
\<close>

theorem generator_methods_raise_when_advanced:
  "(\<exists>gen. get_user_to_entity_mappings_for_user s user = Inr gen \<and>
           (user \<notin> users s \<longrightarrow> advance gen = Inl (DoesNotExist User ''user''))) \<and>
   (\<exists>gen. get_group_to_entity_mappings_for_group s grp = Inr gen \<and>
           (grp \<notin> groups s \<longrightarrow> advance gen = Inl (DoesNotExist Group ''group'')))"
  by (simp add: get_user_to_entity_mappings_for_user_def
        get_group_to_entity_mappings_for_group_def)

theorem generator_methods_raise_when_advanced_witness:
  "12 \<notin> users example_manager \<and> 23 \<notin> groups example_manager \<and>
   (\<exists>gen. get_user_to_entity_mappings_for_user example_manager 12 = Inr gen \<and>
           advance gen = Inl (DoesNotExist User ''user'')) \<and>
   (\<exists>gen. get_group_to_entity_mappings_for_group example_manager 23 = Inr gen \<and>
           advance gen = Inl (DoesNotExist Group ''group''))"
proof -
  have u: "12 \<notin> users example_manager" and g: "23 \<notin> groups example_manager"
    by (simp_all add: example_manager_def)
  from generator_methods_raise_when_advanced [of example_manager 12 23] u g
  show ?thesis by blast
qed

subsection \<open>Add followed by remove\<close>

lemma fmupd_same: "fmlookup m k = Some v \<Longrightarrow> fmupd k v m = m"
  by (rule fmap_ext) auto

lemma fmmap_idle:
  assumes "\<And>k row. fmlookup m k = Some row \<Longrightarrow> f row = row"
  shows "fmmap f m = m"
proof (rule fmap_ext)
  fix k show "fmlookup (fmmap f m) k = fmlookup m k"
    using assms by (cases "fmlookup m k") simp_all
qed

lemma with_row_present: "k \<in> fmdom' m \<Longrightarrow> with_row k m = m"
  by (auto simp: with_row_def fmlookup_dom'_iff)

lemma with_entity_row_present:
  "mapped_entities_of m k t = Some es \<Longrightarrow> with_entity_row k t m = m"
  by (auto simp: with_entity_row_def mapped_entities_of_def fmupd_same split: option.splits)

lemma round_trip_user:
  assumes "mapping_integrity s" "fst (add_user user s) = None"
  shows "remove_user user (snd (add_user user s)) = (None, s)"
proof -
  have u: "user \<notin> users s" using assms(2) by (auto simp: add_user_def split: if_splits)
  then have "user \<notin> fmdom' (user_to_component_map s)" "user \<notin> fmdom' (user_to_entity_map s)"
    using assms(1) by (auto simp: mapping_integrity_def)
  then show ?thesis using u by (simp add: add_user_def remove_user_def)
qed

lemma round_trip_group:
  assumes "mapping_integrity s" "fst (add_group grp s) = None"
  shows "remove_group grp (snd (add_group grp s)) = (None, s)"
proof -
  have u: "grp \<notin> groups s" using assms(2) by (auto simp: add_group_def split: if_splits)
  then have "grp \<notin> fmdom' (group_to_component_map s)" "grp \<notin> fmdom' (group_to_entity_map s)"
    using assms(1) by (auto simp: mapping_integrity_def)
  then show ?thesis using u by (simp add: add_group_def remove_group_def)
qed

lemma round_trip_entity_type:
  assumes ri: "mapping_integrity s" and ok: "fst (add_entity_type t s) = None"
  shows "remove_entity_type t (snd (add_entity_type t s)) = (None, s)"
proof -
  have t: "t \<notin> fmdom' (entities s)"
    and s1: "snd (add_entity_type t s) = s\<lparr>entities := fmupd t {} (entities s)\<rparr>"
    using ok by (auto simp: add_entity_type_def split: if_splits)
  have norow: "t \<notin> fmdom' row" if "entity_row_valid s row" for row
  proof
    assume "t \<in> fmdom' row"
    then obtain es where "fmlookup row t = Some es" by (auto simp: fmlookup_dom'_iff)
    with that obtain all_entities where "fmlookup (entities s) t = Some all_entities"
      unfolding entity_row_valid_def by blast
    with t show False by (auto simp: fmlookup_dom'_iff)
  qed
  have "fmmap (\<lambda>row. if t \<in> fmdom' row then fmdrop t row else row) (user_to_entity_map s)
          = user_to_entity_map s"
    using ri norow by (intro fmmap_idle) (auto simp: mapping_integrity_def)
  moreover
  have "fmmap (\<lambda>row. if t \<in> fmdom' row then fmdrop t row else row) (group_to_entity_map s)
          = group_to_entity_map s"
    using ri norow by (intro fmmap_idle) (auto simp: mapping_integrity_def)
  moreover have "fmdrop t (fmupd t {} (entities s)) = entities s"
    using t by (simp add: fmdrop_fmupd_same fmdrop_idle')
  ultimately show ?thesis
    unfolding s1 by (simp add: remove_entity_type_def)
qed

lemma round_trip_entity:
  assumes ri: "mapping_integrity s" and ok: "fst (add_entity t e s) = None"
  shows "remove_entity t e (snd (add_entity t e s)) = (None, s)"
proof -
  from ok obtain es where es: "fmlookup (entities s) t = Some es" "e \<notin> es"
    and s1: "snd (add_entity t e s) = s\<lparr>entities := fmupd t (insert e es) (entities s)\<rparr>"
    by (auto simp: add_entity_def split: option.splits if_splits)
  have norow: "remove_entity_from_row t e row = row" if "entity_row_valid s row" for row
  proof (cases "fmlookup row t")
    case None
    then show ?thesis by (simp add: remove_entity_from_row_def)
  next
    case (Some xs)
    with that obtain all_entities where
      "fmlookup (entities s) t = Some all_entities" "xs \<subseteq> all_entities"
      unfolding entity_row_valid_def by blast
    with es have "e \<notin> xs" by auto
    with Some show ?thesis by (simp add: remove_entity_from_row_def)
  qed
  have "fmmap (remove_entity_from_row t e) (user_to_entity_map s) = user_to_entity_map s"
    using ri norow by (intro fmmap_idle) (auto simp: mapping_integrity_def)
  moreover
  have "fmmap (remove_entity_from_row t e) (group_to_entity_map s) = group_to_entity_map s"
    using ri norow by (intro fmmap_idle) (auto simp: mapping_integrity_def)
  moreover have "fmupd t (insert e es - {e}) (fmupd t (insert e es) (entities s)) = entities s"
    using es by (simp add: fmupd_same)
  ultimately show ?thesis
    unfolding s1 by (simp add: remove_entity_def)
qed

lemma round_trip_user_to_group:
  assumes ok: "fst (add_user_to_group_mapping user grp s) = None"
  shows "remove_user_to_group_mapping user grp (snd (add_user_to_group_mapping user grp s))
           = (None, s\<lparr>user_to_group_graph_edges := with_row user (user_to_group_graph_edges s)\<rparr>)"
  using ok
  by (auto simp: add_user_to_group_mapping_def remove_user_to_group_mapping_def with_row_def
                 fmupd_same
           split: if_splits option.splits)

lemma round_trip_group_to_group:
  assumes ok: "add_group_to_group_mapping n from_group to_group s = Some (None, s1)"
  shows "remove_group_to_group_mapping from_group to_group s1
           = (None, s\<lparr>group_to_group_graph_edges :=
                        with_row from_group (group_to_group_graph_edges s)\<rparr>)"
  using ok
  by (auto simp: add_group_to_group_mapping_def remove_group_to_group_mapping_def with_row_def
                 fmupd_same
           split: if_splits option.splits sum.splits)

lemma round_trip_user_to_component:
  assumes ok: "fst (add_user_to_application_component_and_access_level_mapping user c a s) = None"
      and other: "fmlookup (user_to_component_map s) user = Some row" "row \<noteq> {}"
  shows "remove_user_to_application_component_and_access_level_mapping user c a
           (snd (add_user_to_application_component_and_access_level_mapping user c a s))
         = (None, s)"
  using ok other
  by (auto simp: add_user_to_application_component_and_access_level_mapping_def
                 remove_user_to_application_component_and_access_level_mapping_def
                 fmupd_same Let_def
           split: if_splits)

lemma round_trip_group_to_component:
  assumes ok: "fst (add_group_to_application_component_and_access_level_mapping grp c a s) = None"
      and other: "fmlookup (group_to_component_map s) grp = Some row" "row \<noteq> {}"
  shows "remove_group_to_application_component_and_access_level_mapping grp c a
           (snd (add_group_to_application_component_and_access_level_mapping grp c a s))
         = (None, s)"
  using ok other
  by (auto simp: add_group_to_application_component_and_access_level_mapping_def
                 remove_group_to_application_component_and_access_level_mapping_def
                 fmupd_same Let_def
           split: if_splits)

lemma add_to_entity_map_lookup:
  "fmlookup (add_to_entity_map k t e m) k =
     Some (fmupd t (insert e (case mapped_entities_of m k t of Some es \<Rightarrow> es | None \<Rightarrow> {}))
             (case fmlookup m k of Some r \<Rightarrow> r | None \<Rightarrow> fmempty))"
  by (auto simp: add_to_entity_map_def mapped_entities_of_def Let_def fmlookup_dom'_iff
                 fmupd_same
           split: option.splits)

lemma remove_after_add_to_entity_map:
  assumes "e \<notin> (case mapped_entities_of m k t of Some es \<Rightarrow> es | None \<Rightarrow> {})"
  shows "fmupd k (fmupd t (insert e (case mapped_entities_of m k t of Some es \<Rightarrow> es | None \<Rightarrow> {}) - {e})
              (fmupd t (insert e (case mapped_entities_of m k t of Some es \<Rightarrow> es | None \<Rightarrow> {}))
                 (case fmlookup m k of Some r \<Rightarrow> r | None \<Rightarrow> fmempty)))
           (add_to_entity_map k t e m)
         = with_entity_row k t m"
  using assms
  by (auto simp: add_to_entity_map_def with_entity_row_def mapped_entities_of_def Let_def
                 fmlookup_dom'_iff fmupd_same
           split: option.splits)

lemma round_trip_user_to_entity:
  assumes ok: "fst (add_user_to_entity_mapping user t e s) = None"
  shows "remove_user_to_entity_mapping user t e (snd (add_user_to_entity_mapping user t e s))
           = (None, s\<lparr>user_to_entity_map := with_entity_row user t (user_to_entity_map s)\<rparr>)"
proof -
  let ?m = "user_to_entity_map s"
  from ok obtain all_entities where
    u: "user \<in> users s" and ty: "fmlookup (entities s) t = Some all_entities"
    and e: "e \<in> all_entities"
    and fresh: "e \<notin> (case mapped_entities_of ?m user t of Some es \<Rightarrow> es | None \<Rightarrow> {})"
    and s1: "snd (add_user_to_entity_mapping user t e s)
               = s\<lparr>user_to_entity_map := add_to_entity_map user t e ?m\<rparr>"
    by (auto simp: add_user_to_entity_mapping_def split: option.splits if_splits)
  show ?thesis
    unfolding s1
    using u ty e remove_after_add_to_entity_map [OF fresh]
    by (simp add: remove_user_to_entity_mapping_def add_to_entity_map_lookup)
qed

lemma round_trip_group_to_entity:
  assumes ok: "fst (add_group_to_entity_mapping grp t e s) = None"
  shows "remove_group_to_entity_mapping grp t e (snd (add_group_to_entity_mapping grp t e s))
           = (None, s\<lparr>group_to_entity_map := with_entity_row grp t (group_to_entity_map s)\<rparr>)"
proof -
  let ?m = "group_to_entity_map s"
  from ok obtain all_entities where
    u: "grp \<in> groups s" and ty: "fmlookup (entities s) t = Some all_entities"
    and e: "e \<in> all_entities"
    and fresh: "e \<notin> (case mapped_entities_of ?m grp t of Some es \<Rightarrow> es | None \<Rightarrow> {})"
    and s1: "snd (add_group_to_entity_mapping grp t e s)
               = s\<lparr>group_to_entity_map := add_to_entity_map grp t e ?m\<rparr>"
    by (auto simp: add_group_to_entity_mapping_def split: option.splits if_splits)
  show ?thesis
    unfolding s1
    using u ty e remove_after_add_to_entity_map [OF fresh]
    by (simp add: remove_group_to_entity_mapping_def add_to_entity_map_lookup)
qed

subsection \<open>Integrity of the mapping stores\<close>

text \<open>
  \<open>mapping_integrity\<close> holds of the empty manager and every operation preserves it, whether
  it succeeds or fails: it holds in every state the operations can produce.
\<close>

lemma mapping_integrity_init: "mapping_integrity init"
  by (simp add: mapping_integrity_def init_def)

lemma mapping_integrity_vertices:
  assumes "mapping_integrity s"
  shows "mapping_integrity (snd (add_user user s))"
    and "mapping_integrity (snd (remove_user user s))"
    and "mapping_integrity (snd (add_group grp s))"
    and "mapping_integrity (snd (remove_group grp s))"
  subgoal using assms by (auto simp: mapping_integrity_def add_user_def entity_row_valid_def)
  subgoal using assms by (auto simp: mapping_integrity_def remove_user_def entity_row_valid_def Let_def
                   split: if_splits)
  subgoal using assms by (auto simp: mapping_integrity_def add_group_def entity_row_valid_def)
  subgoal using assms by (auto simp: mapping_integrity_def remove_group_def entity_row_valid_def Let_def
                   split: if_splits)
  done

lemma mapping_integrity_edges:
  assumes "mapping_integrity s"
  shows "mapping_integrity (snd (add_user_to_group_mapping user grp s))"
    and "mapping_integrity (snd (remove_user_to_group_mapping user grp s))"
    and "add_group_to_group_mapping n from_group to_group s = Some (err, s') \<Longrightarrow>
           mapping_integrity s'"
    and "mapping_integrity (snd (remove_group_to_group_mapping from_group to_group s))"
  subgoal using assms by (auto simp: mapping_integrity_def add_user_to_group_mapping_def entity_row_valid_def
                   split: option.splits)
  subgoal using assms by (auto simp: mapping_integrity_def remove_user_to_group_mapping_def
                     entity_row_valid_def split: option.splits)
  subgoal using assms by (auto simp: mapping_integrity_def add_group_to_group_mapping_def
                     entity_row_valid_def split: option.splits if_splits sum.splits)
  subgoal using assms by (auto simp: mapping_integrity_def remove_group_to_group_mapping_def
                     entity_row_valid_def split: option.splits)
  done

lemma mapping_integrity_components:
  assumes "mapping_integrity s"
  shows "mapping_integrity
           (snd (add_user_to_application_component_and_access_level_mapping user c a s))"
    and "mapping_integrity
           (snd (remove_user_to_application_component_and_access_level_mapping user c a s))"
    and "mapping_integrity
           (snd (add_group_to_application_component_and_access_level_mapping grp c a s))"
    and "mapping_integrity
           (snd (remove_group_to_application_component_and_access_level_mapping grp c a s))"
  subgoal using assms by (auto simp: mapping_integrity_def entity_row_valid_def Let_def
                     add_user_to_application_component_and_access_level_mapping_def
                   split: option.splits)
  subgoal using assms by (auto simp: mapping_integrity_def entity_row_valid_def Let_def
                     remove_user_to_application_component_and_access_level_mapping_def
                   split: option.splits)
  subgoal using assms by (auto simp: mapping_integrity_def entity_row_valid_def Let_def
                     add_group_to_application_component_and_access_level_mapping_def
                   split: option.splits)
  subgoal using assms by (auto simp: mapping_integrity_def entity_row_valid_def Let_def
                     remove_group_to_application_component_and_access_level_mapping_def
                   split: option.splits)
  done

lemma entity_row_valid_add_entity_type:
  assumes "entity_row_valid s row" and "t \<notin> fmdom' (entities s)"
      and "entities s' = fmupd t {} (entities s)"
  shows "entity_row_valid s' row"
  unfolding entity_row_valid_def
proof (intro allI impI)
  fix t' es assume "fmlookup row t' = Some es"
  with assms(1) obtain all_entities where
    a: "fmlookup (entities s) t' = Some all_entities" "es \<subseteq> all_entities"
    unfolding entity_row_valid_def by blast
  with assms(2) have "t' \<noteq> t" by (auto simp: fmlookup_dom'_iff)
  with a assms(3)
  show "\<exists>all_entities. fmlookup (entities s') t' = Some all_entities \<and> es \<subseteq> all_entities"
    by simp
qed

lemma entity_row_valid_remove_entity_type:
  assumes "entity_row_valid s row" and "entities s' = fmdrop t (entities s)"
  shows "entity_row_valid s' (if t \<in> fmdom' row then fmdrop t row else row)"
  unfolding entity_row_valid_def
proof (intro allI impI)
  fix t' es
  assume l: "fmlookup (if t \<in> fmdom' row then fmdrop t row else row) t' = Some es"
  then have "t' \<noteq> t" and "fmlookup row t' = Some es"
    by (auto simp: fmlookup_dom'_iff split: if_splits)
  with assms
  show "\<exists>all_entities. fmlookup (entities s') t' = Some all_entities \<and> es \<subseteq> all_entities"
    unfolding entity_row_valid_def by simp
qed

lemma entity_row_valid_add_entity:
  assumes "entity_row_valid s row" and "fmlookup (entities s) t = Some all_t"
      and "entities s' = fmupd t (insert e all_t) (entities s)"
  shows "entity_row_valid s' row"
  unfolding entity_row_valid_def
proof (intro allI impI)
  fix t' es assume "fmlookup row t' = Some es"
  with assms(1) obtain all_entities where
    a: "fmlookup (entities s) t' = Some all_entities" "es \<subseteq> all_entities"
    unfolding entity_row_valid_def by blast
  with assms(2,3)
  show "\<exists>all_entities. fmlookup (entities s') t' = Some all_entities \<and> es \<subseteq> all_entities"
    by (cases "t' = t") auto
qed

lemma entity_row_valid_remove_entity:
  assumes "entity_row_valid s row" and "fmlookup (entities s) t = Some all_t"
      and "entities s' = fmupd t (all_t - {e}) (entities s)"
  shows "entity_row_valid s' (remove_entity_from_row t e row)"
  unfolding entity_row_valid_def
proof (intro allI impI)
  fix t' es assume l: "fmlookup (remove_entity_from_row t e row) t' = Some es"
  show "\<exists>all_entities. fmlookup (entities s') t' = Some all_entities \<and> es \<subseteq> all_entities"
  proof (cases "t' = t")
    case False
    with l have "fmlookup row t' = Some es"
      by (auto simp: remove_entity_from_row_def split: option.splits if_splits)
    with assms(1) obtain all_entities where
      "fmlookup (entities s) t' = Some all_entities" "es \<subseteq> all_entities"
      unfolding entity_row_valid_def by blast
    with False assms(3) show ?thesis by simp
  next
    case True
    with l obtain xs where xs: "fmlookup row t = Some xs" "es = xs - {e}"
      by (auto simp: remove_entity_from_row_def split: option.splits if_splits)
    with assms(1,2) have "xs \<subseteq> all_t" unfolding entity_row_valid_def by fastforce
    with xs True assms(3) show ?thesis by auto
  qed
qed

lemma mapping_integrity_fmmap:
  assumes mi: "mapping_integrity s"
      and s': "s' = s\<lparr>user_to_entity_map := fmmap f (user_to_entity_map s),
                        group_to_entity_map := fmmap f (group_to_entity_map s),
                        entities := E\<rparr>"
      and f: "\<And>row. entity_row_valid s row \<Longrightarrow> entity_row_valid s' (f row)"
  shows "mapping_integrity s'"
proof -
  have "entity_row_valid s' row'"
    if "fmlookup (fmmap f (user_to_entity_map s)) u = Some row'" for u row'
  proof -
    from that obtain row where "fmlookup (user_to_entity_map s) u = Some row" "row' = f row"
      by auto
    with mi f show ?thesis by (simp add: mapping_integrity_def)
  qed
  moreover
  have "entity_row_valid s' row'"
    if "fmlookup (fmmap f (group_to_entity_map s)) g = Some row'" for g row'
  proof -
    from that obtain row where "fmlookup (group_to_entity_map s) g = Some row" "row' = f row"
      by auto
    with mi f show ?thesis by (simp add: mapping_integrity_def)
  qed
  moreover have "users s' = users s" "groups s' = groups s"
    "user_to_component_map s' = user_to_component_map s"
    "group_to_component_map s' = group_to_component_map s"
    "user_to_entity_map s' = fmmap f (user_to_entity_map s)"
    "group_to_entity_map s' = fmmap f (group_to_entity_map s)"
    by (simp_all add: s')
  ultimately show ?thesis using mi by (simp add: mapping_integrity_def)
qed

lemma mapping_integrity_add_entity_type:
  assumes "mapping_integrity s"
  shows "mapping_integrity (snd (add_entity_type t s))"
proof (cases "fst (add_entity_type t s) = None")
  case False
  then obtain err where "add_entity_type t s = (Some err, snd (add_entity_type t s))"
    by (cases "add_entity_type t s") auto
  then have "snd (add_entity_type t s) = s"
    by (rule failed_vertex_operations_leave_state)
  with assms show ?thesis by simp
next
  case True
  then have t: "t \<notin> fmdom' (entities s)"
    and s': "snd (add_entity_type t s) = s\<lparr>entities := fmupd t {} (entities s)\<rparr>"
    by (auto simp: add_entity_type_def split: if_splits)
  have "entity_row_valid (s\<lparr>entities := fmupd t {} (entities s)\<rparr>) row"
    if "entity_row_valid s row" for row
    using that t by (rule entity_row_valid_add_entity_type) simp
  with assms show ?thesis unfolding s' by (simp add: mapping_integrity_def)
qed

lemma mapping_integrity_remove_entity_type:
  assumes "mapping_integrity s"
  shows "mapping_integrity (snd (remove_entity_type t s))"
proof (cases "fst (remove_entity_type t s) = None")
  case False
  then obtain err where "remove_entity_type t s = (Some err, snd (remove_entity_type t s))"
    by (cases "remove_entity_type t s") auto
  then have "snd (remove_entity_type t s) = s"
    by (rule failed_vertex_operations_leave_state)
  with assms show ?thesis by simp
next
  case True
  let ?f = "\<lambda>row. if t \<in> fmdom' row then fmdrop t row else row"
  let ?s' = "s\<lparr>user_to_entity_map := fmmap ?f (user_to_entity_map s),
                group_to_entity_map := fmmap ?f (group_to_entity_map s),
                entities := fmdrop t (entities s)\<rparr>"
  from True have s': "snd (remove_entity_type t s) = ?s'"
    by (auto simp: remove_entity_type_def split: if_splits)
  show ?thesis
    unfolding s'
  proof (rule mapping_integrity_fmmap [OF assms refl])
    fix row assume "entity_row_valid s row"
    then show "entity_row_valid ?s' (?f row)"
      by (rule entity_row_valid_remove_entity_type) simp
  qed
qed

lemma mapping_integrity_add_entity:
  assumes "mapping_integrity s"
  shows "mapping_integrity (snd (add_entity t e s))"
proof (cases "fst (add_entity t e s) = None")
  case False
  then obtain err where "add_entity t e s = (Some err, snd (add_entity t e s))"
    by (cases "add_entity t e s") auto
  then have "snd (add_entity t e s) = s"
    by (rule failed_vertex_operations_leave_state)
  with assms show ?thesis by simp
next
  case True
  then obtain es where es: "fmlookup (entities s) t = Some es"
    and s': "snd (add_entity t e s) = s\<lparr>entities := fmupd t (insert e es) (entities s)\<rparr>"
    by (auto simp: add_entity_def split: if_splits option.splits)
  have "entity_row_valid (s\<lparr>entities := fmupd t (insert e es) (entities s)\<rparr>) row"
    if "entity_row_valid s row" for row
    using that es by (rule entity_row_valid_add_entity) simp
  with assms show ?thesis unfolding s' by (simp add: mapping_integrity_def)
qed

lemma mapping_integrity_remove_entity:
  assumes "mapping_integrity s"
  shows "mapping_integrity (snd (remove_entity t e s))"
proof (cases "fst (remove_entity t e s) = None")
  case False
  then obtain err where "remove_entity t e s = (Some err, snd (remove_entity t e s))"
    by (cases "remove_entity t e s") auto
  then have "snd (remove_entity t e s) = s"
    by (rule failed_vertex_operations_leave_state)
  with assms show ?thesis by simp
next
  case True
  let ?f = "remove_entity_from_row t e"
  from True obtain es where es: "fmlookup (entities s) t = Some es"
    and s': "snd (remove_entity t e s)
             = s\<lparr>user_to_entity_map := fmmap ?f (user_to_entity_map s),
                  group_to_entity_map := fmmap ?f (group_to_entity_map s),
                  entities := fmupd t (es - {e}) (entities s)\<rparr>"
    by (auto simp: remove_entity_def split: if_splits option.splits)
  show ?thesis
    unfolding s'
  proof (rule mapping_integrity_fmmap [OF assms refl])
    fix row assume "entity_row_valid s row"
    then show "entity_row_valid (s\<lparr>user_to_entity_map := fmmap ?f (user_to_entity_map s),
                  group_to_entity_map := fmmap ?f (group_to_entity_map s),
                  entities := fmupd t (es - {e}) (entities s)\<rparr>) (?f row)"
      using es by (rule entity_row_valid_remove_entity) simp
  qed
qed

lemma entity_row_valid_fmupd:
  assumes "entity_row_valid s row" and "fmlookup (entities s) t = Some all_t" and "es \<subseteq> all_t"
  shows "entity_row_valid s (fmupd t es row)"
  using assms unfolding entity_row_valid_def by auto

lemma entity_row_valid_entity_map_update:
  "entity_row_valid (s\<lparr>user_to_entity_map := um\<rparr>) row = entity_row_valid s row"
  "entity_row_valid (s\<lparr>group_to_entity_map := gm\<rparr>) row = entity_row_valid s row"
  by (simp_all add: entity_row_valid_def)

lemma entity_row_valid_fmempty: "entity_row_valid s fmempty"
  by (simp add: entity_row_valid_def)

lemma add_to_entity_map_other:
  "k' \<noteq> k \<Longrightarrow> fmlookup (add_to_entity_map k t e m) k' = fmlookup m k'"
  by (simp add: add_to_entity_map_def Let_def)

lemma fmdom'_add_to_entity_map: "fmdom' (add_to_entity_map k t e m) = insert k (fmdom' m)"
  by (auto simp: add_to_entity_map_def Let_def)

lemma entity_rows_valid_add_to_entity_map:
  assumes rows: "\<And>k row. fmlookup m k = Some row \<Longrightarrow> entity_row_valid s row"
      and ty: "fmlookup (entities s) t = Some all_t" and e: "e \<in> all_t"
      and l: "fmlookup (add_to_entity_map k t e m) k' = Some row'"
  shows "entity_row_valid s row'"
proof (cases "k' = k")
  case False
  with l rows show ?thesis by (simp add: add_to_entity_map_other)
next
  case True
  let ?row = "case fmlookup m k of Some r \<Rightarrow> r | None \<Rightarrow> fmempty"
  let ?es = "case mapped_entities_of m k t of Some es \<Rightarrow> es | None \<Rightarrow> {}"
  have r: "entity_row_valid s ?row"
    using rows by (auto simp: entity_row_valid_fmempty split: option.splits)
  have "?es \<subseteq> all_t"
    using rows ty
    by (fastforce simp: mapped_entities_of_def entity_row_valid_def split: option.splits)
  with e have "insert e ?es \<subseteq> all_t" by simp
  with r ty have "entity_row_valid s (fmupd t (insert e ?es) ?row)"
    by (rule entity_row_valid_fmupd)
  with l True show ?thesis by (simp add: add_to_entity_map_lookup)
qed

lemma mapping_integrity_add_user_to_entity_mapping:
  assumes mi: "mapping_integrity s"
  shows "mapping_integrity (snd (add_user_to_entity_mapping user t e s))"
proof (cases "fst (add_user_to_entity_mapping user t e s) = None")
  case False
  then obtain err where "add_user_to_entity_mapping user t e s = (Some err, snd (add_user_to_entity_mapping user t e s))"
    by (cases "add_user_to_entity_mapping user t e s") auto
  then have "snd (add_user_to_entity_mapping user t e s) = s"
    by (rule failed_mapping_operations_leave_state)
  with mi show ?thesis by simp
next
  case True
  then obtain all_t where u: "user \<in> users s" and ty: "fmlookup (entities s) t = Some all_t"
    and e: "e \<in> all_t"
    and s': "snd (add_user_to_entity_mapping user t e s)
               = s\<lparr>user_to_entity_map := add_to_entity_map user t e (user_to_entity_map s)\<rparr>"
    by (auto simp: add_user_to_entity_mapping_def split: option.splits if_splits)
  have rows: "\<And>k row. fmlookup (user_to_entity_map s) k = Some row \<Longrightarrow> entity_row_valid s row"
    using mi by (simp add: mapping_integrity_def)
  have "entity_row_valid s row'"
    if "fmlookup (add_to_entity_map user t e (user_to_entity_map s)) k' = Some row'" for k' row'
    using rows ty e that by (rule entity_rows_valid_add_to_entity_map)
  then show ?thesis
    unfolding s' using mi u
    by (simp add: mapping_integrity_def fmdom'_add_to_entity_map
          entity_row_valid_entity_map_update)
qed

lemma mapping_integrity_add_group_to_entity_mapping:
  assumes mi: "mapping_integrity s"
  shows "mapping_integrity (snd (add_group_to_entity_mapping grp t e s))"
proof (cases "fst (add_group_to_entity_mapping grp t e s) = None")
  case False
  then obtain err where "add_group_to_entity_mapping grp t e s = (Some err, snd (add_group_to_entity_mapping grp t e s))"
    by (cases "add_group_to_entity_mapping grp t e s") auto
  then have "snd (add_group_to_entity_mapping grp t e s) = s"
    by (rule failed_mapping_operations_leave_state)
  with mi show ?thesis by simp
next
  case True
  then obtain all_t where u: "grp \<in> groups s" and ty: "fmlookup (entities s) t = Some all_t"
    and e: "e \<in> all_t"
    and s': "snd (add_group_to_entity_mapping grp t e s)
               = s\<lparr>group_to_entity_map := add_to_entity_map grp t e (group_to_entity_map s)\<rparr>"
    by (auto simp: add_group_to_entity_mapping_def split: option.splits if_splits)
  have rows: "\<And>k row. fmlookup (group_to_entity_map s) k = Some row \<Longrightarrow> entity_row_valid s row"
    using mi by (simp add: mapping_integrity_def)
  have "entity_row_valid s row'"
    if "fmlookup (add_to_entity_map grp t e (group_to_entity_map s)) k' = Some row'" for k' row'
    using rows ty e that by (rule entity_rows_valid_add_to_entity_map)
  then show ?thesis
    unfolding s' using mi u
    by (simp add: mapping_integrity_def fmdom'_add_to_entity_map
          entity_row_valid_entity_map_update)
qed

lemma mapping_integrity_remove_user_to_entity_mapping:
  assumes mi: "mapping_integrity s"
  shows "mapping_integrity (snd (remove_user_to_entity_mapping user t e s))"
proof (cases "fst (remove_user_to_entity_mapping user t e s) = None")
  case False
  then obtain err where "remove_user_to_entity_mapping user t e s = (Some err, snd (remove_user_to_entity_mapping user t e s))"
    by (cases "remove_user_to_entity_mapping user t e s") auto
  then have "snd (remove_user_to_entity_mapping user t e s) = s"
    by (rule failed_mapping_operations_leave_state)
  with mi show ?thesis by simp
next
  case True
  then obtain all_t row es where u: "user \<in> users s"
    and ty: "fmlookup (entities s) t = Some all_t"
    and row: "fmlookup (user_to_entity_map s) user = Some row" "fmlookup row t = Some es"
    and s': "snd (remove_user_to_entity_mapping user t e s)
               = s\<lparr>user_to_entity_map :=
                    fmupd user (fmupd t (es - {e}) row) (user_to_entity_map s)\<rparr>"
    by (auto simp: remove_user_to_entity_mapping_def split: option.splits if_splits)
  have rv: "entity_row_valid s row" using mi row(1) by (simp add: mapping_integrity_def)
  then have "es \<subseteq> all_t" using row(2) ty unfolding entity_row_valid_def by fastforce
  then have "es - {e} \<subseteq> all_t" by auto
  with rv ty have "entity_row_valid s (fmupd t (es - {e}) row)"
    by (rule entity_row_valid_fmupd)
  then show ?thesis
    unfolding s' using mi u
    by (simp add: mapping_integrity_def entity_row_valid_entity_map_update)
qed

lemma mapping_integrity_remove_group_to_entity_mapping:
  assumes mi: "mapping_integrity s"
  shows "mapping_integrity (snd (remove_group_to_entity_mapping grp t e s))"
proof (cases "fst (remove_group_to_entity_mapping grp t e s) = None")
  case False
  then obtain err where "remove_group_to_entity_mapping grp t e s = (Some err, snd (remove_group_to_entity_mapping grp t e s))"
    by (cases "remove_group_to_entity_mapping grp t e s") auto
  then have "snd (remove_group_to_entity_mapping grp t e s) = s"
    by (rule failed_mapping_operations_leave_state)
  with mi show ?thesis by simp
next
  case True
  then obtain all_t row es where u: "grp \<in> groups s"
    and ty: "fmlookup (entities s) t = Some all_t"
    and row: "fmlookup (group_to_entity_map s) grp = Some row" "fmlookup row t = Some es"
    and s': "snd (remove_group_to_entity_mapping grp t e s)
               = s\<lparr>group_to_entity_map :=
                    fmupd grp (fmupd t (es - {e}) row) (group_to_entity_map s)\<rparr>"
    by (auto simp: remove_group_to_entity_mapping_def split: option.splits if_splits)
  have rv: "entity_row_valid s row" using mi row(1) by (simp add: mapping_integrity_def)
  then have "es \<subseteq> all_t" using row(2) ty unfolding entity_row_valid_def by fastforce
  then have "es - {e} \<subseteq> all_t" by auto
  with rv ty have "entity_row_valid s (fmupd t (es - {e}) row)"
    by (rule entity_row_valid_fmupd)
  then show ?thesis
    unfolding s' using mi u
    by (simp add: mapping_integrity_def entity_row_valid_entity_map_update)
qed

text \<open>
  C9 as stated fails on the code: adding a user to group mapping for a user without a row
  and removing it again succeeds twice and leaves an empty row for the user that was not
  there before.
\<close>

theorem add_then_remove_round_trip_counterexample:
  "fst (add_user_to_group_mapping 11 20 example_manager) = None \<and>
   fst (remove_user_to_group_mapping 11 20
          (snd (add_user_to_group_mapping 11 20 example_manager))) = None \<and>
   snd (remove_user_to_group_mapping 11 20
          (snd (add_user_to_group_mapping 11 20 example_manager))) \<noteq> example_manager \<and>
   fmlookup (user_to_group_graph_edges example_manager) 11 = None \<and>
   fmlookup (user_to_group_graph_edges
      (snd (remove_user_to_group_mapping 11 20
          (snd (add_user_to_group_mapping 11 20 example_manager))))) 11 = Some []"
proof -
  have a: "add_user_to_group_mapping 11 20 example_manager
         = (None, example_manager\<lparr>user_to_group_graph_edges :=
              fmupd 11 [20] (user_to_group_graph_edges example_manager)\<rparr>)"
    by (simp add: add_user_to_group_mapping_def example_manager_def)
  have b: "remove_user_to_group_mapping 11 20
             (example_manager\<lparr>user_to_group_graph_edges :=
                fmupd 11 [20] (user_to_group_graph_edges example_manager)\<rparr>)
         = (None, example_manager\<lparr>user_to_group_graph_edges :=
              fmupd 11 [] (user_to_group_graph_edges example_manager)\<rparr>)"
    by (simp add: remove_user_to_group_mapping_def example_manager_def)
  have c: "fmlookup (user_to_group_graph_edges example_manager) 11 = None"
    by (simp add: example_manager_def)
  have d: "example_manager\<lparr>user_to_group_graph_edges :=
              fmupd 11 [] (user_to_group_graph_edges example_manager)\<rparr> \<noteq> example_manager"
  proof
    assume "example_manager\<lparr>user_to_group_graph_edges :=
              fmupd 11 [] (user_to_group_graph_edges example_manager)\<rparr> = example_manager"
    then have "fmlookup (user_to_group_graph_edges (example_manager\<lparr>user_to_group_graph_edges :=
              fmupd 11 [] (user_to_group_graph_edges example_manager)\<rparr>)) 11
             = fmlookup (user_to_group_graph_edges example_manager) 11"
      by simp
    then show False using c by simp
  qed
  show ?thesis using c d by (simp add: a b)
qed

text \<open>
  C9, amended. In a state whose mapping dictionaries refer to present users, groups and
  declared entities only (\<open>mapping_integrity\<close>, which every operation preserves), an add of a user, a group, an entity
  type or an entity that succeeds, followed by the matching remove: the remove succeeds and
  the state is the one before the add. For a user to group mapping, a group to group mapping
  and a user or group to entity mapping, the remove succeeds and the state is the one before
  the add except that a row the add created stays, empty (\<open>with_row\<close>, \<open>with_entity_row\<close>):
  it is the state before the add when the row was there. For a component mapping of a user
  or group that already holds another one, the remove succeeds and the state is the one
  before the add.
\<close>

theorem add_then_remove_round_trip:
  assumes ri: "mapping_integrity s"
  shows
    "(fst (add_user user s) = None \<longrightarrow> remove_user user (snd (add_user user s)) = (None, s)) \<and>
     (fst (add_group grp s) = None \<longrightarrow> remove_group grp (snd (add_group grp s)) = (None, s)) \<and>
     (fst (add_entity_type entity_type s) = None \<longrightarrow>
        remove_entity_type entity_type (snd (add_entity_type entity_type s)) = (None, s)) \<and>
     (fst (add_entity t e s) = None \<longrightarrow> remove_entity t e (snd (add_entity t e s)) = (None, s)) \<and>
     (fst (add_user_to_group_mapping user1 grp1 s) = None \<longrightarrow>
        remove_user_to_group_mapping user1 grp1 (snd (add_user_to_group_mapping user1 grp1 s))
          = (None, s\<lparr>user_to_group_graph_edges :=
                       with_row user1 (user_to_group_graph_edges s)\<rparr>)) \<and>
     (\<forall>n s1. add_group_to_group_mapping n from_group to_group s = Some (None, s1) \<longrightarrow>
        remove_group_to_group_mapping from_group to_group s1
          = (None, s\<lparr>group_to_group_graph_edges :=
                       with_row from_group (group_to_group_graph_edges s)\<rparr>)) \<and>
     (fst (add_user_to_application_component_and_access_level_mapping user2 c a s) = None \<and>
      (\<exists>row. fmlookup (user_to_component_map s) user2 = Some row \<and> row \<noteq> {}) \<longrightarrow>
        remove_user_to_application_component_and_access_level_mapping user2 c a
          (snd (add_user_to_application_component_and_access_level_mapping user2 c a s))
          = (None, s)) \<and>
     (fst (add_group_to_application_component_and_access_level_mapping grp2 c' a' s) = None \<and>
      (\<exists>row. fmlookup (group_to_component_map s) grp2 = Some row \<and> row \<noteq> {}) \<longrightarrow>
        remove_group_to_application_component_and_access_level_mapping grp2 c' a'
          (snd (add_group_to_application_component_and_access_level_mapping grp2 c' a' s))
          = (None, s)) \<and>
     (fst (add_user_to_entity_mapping user3 t3 e3 s) = None \<longrightarrow>
        remove_user_to_entity_mapping user3 t3 e3 (snd (add_user_to_entity_mapping user3 t3 e3 s))
          = (None, s\<lparr>user_to_entity_map := with_entity_row user3 t3 (user_to_entity_map s)\<rparr>)) \<and>
     (fst (add_group_to_entity_mapping grp4 t4 e4 s) = None \<longrightarrow>
        remove_group_to_entity_mapping grp4 t4 e4 (snd (add_group_to_entity_mapping grp4 t4 e4 s))
          = (None, s\<lparr>group_to_entity_map := with_entity_row grp4 t4 (group_to_entity_map s)\<rparr>))"
proof (intro conjI impI allI)
  show "remove_user user (snd (add_user user s)) = (None, s)"
    if "fst (add_user user s) = None"
    using ri that by (rule round_trip_user)
  show "remove_group grp (snd (add_group grp s)) = (None, s)"
    if "fst (add_group grp s) = None"
    using ri that by (rule round_trip_group)
  show "remove_entity_type entity_type (snd (add_entity_type entity_type s)) = (None, s)"
    if "fst (add_entity_type entity_type s) = None"
    using ri that by (rule round_trip_entity_type)
  show "remove_entity t e (snd (add_entity t e s)) = (None, s)"
    if "fst (add_entity t e s) = None"
    using ri that by (rule round_trip_entity)
  show "remove_user_to_group_mapping user1 grp1 (snd (add_user_to_group_mapping user1 grp1 s))
          = (None, s\<lparr>user_to_group_graph_edges :=
                       with_row user1 (user_to_group_graph_edges s)\<rparr>)"
    if "fst (add_user_to_group_mapping user1 grp1 s) = None"
    using that by (rule round_trip_user_to_group)
  show "remove_group_to_group_mapping from_group to_group s1
          = (None, s\<lparr>group_to_group_graph_edges :=
                       with_row from_group (group_to_group_graph_edges s)\<rparr>)"
    if "add_group_to_group_mapping n from_group to_group s = Some (None, s1)" for n s1
    using that by (rule round_trip_group_to_group)
  show "remove_user_to_application_component_and_access_level_mapping user2 c a
          (snd (add_user_to_application_component_and_access_level_mapping user2 c a s))
          = (None, s)"
    if "fst (add_user_to_application_component_and_access_level_mapping user2 c a s) = None \<and>
        (\<exists>row. fmlookup (user_to_component_map s) user2 = Some row \<and> row \<noteq> {})"
    using that by (blast intro: round_trip_user_to_component)
  show "remove_group_to_application_component_and_access_level_mapping grp2 c' a'
          (snd (add_group_to_application_component_and_access_level_mapping grp2 c' a' s))
          = (None, s)"
    if "fst (add_group_to_application_component_and_access_level_mapping grp2 c' a' s) = None \<and>
        (\<exists>row. fmlookup (group_to_component_map s) grp2 = Some row \<and> row \<noteq> {})"
    using that by (blast intro: round_trip_group_to_component)
  show "remove_user_to_entity_mapping user3 t3 e3 (snd (add_user_to_entity_mapping user3 t3 e3 s))
          = (None, s\<lparr>user_to_entity_map := with_entity_row user3 t3 (user_to_entity_map s)\<rparr>)"
    if "fst (add_user_to_entity_mapping user3 t3 e3 s) = None"
    using that by (rule round_trip_user_to_entity)
  show "remove_group_to_entity_mapping grp4 t4 e4 (snd (add_group_to_entity_mapping grp4 t4 e4 s))
          = (None, s\<lparr>group_to_entity_map := with_entity_row grp4 t4 (group_to_entity_map s)\<rparr>)"
    if "fst (add_group_to_entity_mapping grp4 t4 e4 s) = None"
    using that by (rule round_trip_group_to_entity)
qed

theorem add_then_remove_round_trip_witness:
  "mapping_integrity example_manager \<and>
   remove_user 12 (snd (add_user 12 example_manager)) = (None, example_manager) \<and>
   remove_group 23 (snd (add_group 23 example_manager)) = (None, example_manager) \<and>
   remove_entity_type ''S'' (snd (add_entity_type ''S'' example_manager))
     = (None, example_manager) \<and>
   remove_entity ''T'' ''G'' (snd (add_entity ''T'' ''G'' example_manager))
     = (None, example_manager) \<and>
   remove_user_to_group_mapping 10 21 (snd (add_user_to_group_mapping 10 21 example_manager))
     = (None, example_manager) \<and>
   (\<exists>n s1. add_group_to_group_mapping n 20 22 example_manager = Some (None, s1) \<and>
            remove_group_to_group_mapping 20 22 s1 = (None, example_manager)) \<and>
   remove_user_to_application_component_and_access_level_mapping 10 32 42
     (snd (add_user_to_application_component_and_access_level_mapping 10 32 42 example_manager))
     = (None, example_manager) \<and>
   remove_group_to_application_component_and_access_level_mapping 21 32 42
     (snd (add_group_to_application_component_and_access_level_mapping 21 32 42 example_manager))
     = (None, example_manager) \<and>
   remove_user_to_entity_mapping 10 ''T'' ''F''
     (snd (add_user_to_entity_mapping 10 ''T'' ''F'' example_manager))
     = (None, example_manager) \<and>
   remove_group_to_entity_mapping 21 ''T'' ''E''
     (snd (add_group_to_entity_mapping 21 ''T'' ''E'' example_manager))
     = (None, example_manager)"
proof -
  have ri: "mapping_integrity example_manager"
    using global_invariants_example
    by (simp add: global_invariants_def referential_integrity_def)
  note th = add_then_remove_round_trip [OF ri,
      where user = 12 and grp = 23 and entity_type = "''S''" and t = "''T''" and e = "''G''"
        and ?user1.0 = 10 and ?grp1.0 = 21 and from_group = 20 and to_group = 22
        and ?user2.0 = 10 and c = 32 and a = 42 and ?grp2.0 = 21 and c' = 32 and a' = 42
        and ?user3.0 = 10 and ?t3.0 = "''T''" and ?e3.0 = "''F''"
        and ?grp4.0 = 21 and ?t4.0 = "''T''" and ?e4.0 = "''E''"]
  have a1: "fst (add_user 12 example_manager) = None"
    by (simp add: add_user_def example_manager_def)
  have a2: "fst (add_group 23 example_manager) = None"
    by (simp add: add_group_def example_manager_def)
  have a3: "fst (add_entity_type ''S'' example_manager) = None"
    by (simp add: add_entity_type_def example_manager_def isspace_def is_whitespace_def)
  have a4: "fst (add_entity ''T'' ''G'' example_manager) = None"
    by (simp add: add_entity_def example_manager_def isspace_def is_whitespace_def)
  have a5: "fst (add_user_to_group_mapping 10 21 example_manager) = None"
    by (simp add: add_user_to_group_mapping_def example_manager_def)
  have a6: "add_group_to_group_mapping (Suc 0) 20 22 example_manager
            = Some (None, example_manager\<lparr>group_to_group_graph_edges :=
                 fmupd 20 [21, 22] (group_to_group_graph_edges example_manager)\<rparr>)"
    by (simp add: add_group_to_group_mapping_def example_manager_def
          CheckForCircularReferenceTraverserAction_invoke_def)
  have a7: "fst (add_user_to_application_component_and_access_level_mapping 10 32 42
              example_manager) = None"
    "\<exists>row. fmlookup (user_to_component_map example_manager) 10 = Some row \<and> row \<noteq> {}"
    by (simp_all add: add_user_to_application_component_and_access_level_mapping_def
          example_manager_def)
  have a8: "fst (add_group_to_application_component_and_access_level_mapping 21 32 42
              example_manager) = None"
    "\<exists>row. fmlookup (group_to_component_map example_manager) 21 = Some row \<and> row \<noteq> {}"
    by (simp_all add: add_group_to_application_component_and_access_level_mapping_def
          example_manager_def)
  have a9: "fst (add_user_to_entity_mapping 10 ''T'' ''F'' example_manager) = None"
    by (simp add: add_user_to_entity_mapping_def example_manager_def mapped_entities_of_def)
  have a10: "fst (add_group_to_entity_mapping 21 ''T'' ''E'' example_manager) = None"
    by (simp add: add_group_to_entity_mapping_def example_manager_def mapped_entities_of_def)
  have w1: "with_row 10 (user_to_group_graph_edges example_manager)
              = user_to_group_graph_edges example_manager"
    by (rule with_row_present) (simp add: example_manager_def)
  have w2: "with_row 20 (group_to_group_graph_edges example_manager)
              = group_to_group_graph_edges example_manager"
    by (rule with_row_present) (simp add: example_manager_def)
  have w3: "with_entity_row 10 ''T'' (user_to_entity_map example_manager)
              = user_to_entity_map example_manager"
    by (rule with_entity_row_present [where es = "{''E''}"])
       (simp add: example_manager_def mapped_entities_of_def)
  have w4: "with_entity_row 21 ''T'' (group_to_entity_map example_manager)
              = group_to_entity_map example_manager"
    by (rule with_entity_row_present [where es = "{''F''}"])
       (simp add: example_manager_def mapped_entities_of_def)
  from th a6 w2 have b6: "\<exists>n s1. add_group_to_group_mapping n 20 22 example_manager = Some (None, s1) \<and>
            remove_group_to_group_mapping 20 22 s1 = (None, example_manager)"
    by (metis (no_types, lifting) access_manager.surjective access_manager.update_convs(4))
  from th a1 a2 a3 a4 a5 a7 a8 a9 a10 w1 w3 w4 ri b6 show ?thesis
    by simp
qed

end
